theory Spec2Isabelle
  imports Complex_Main "HOL-Library.Char_ord" "HOL-Library.List_Lexorder"
begin

section \<open>Route normalization: geo primitives, guardrails, resampling, hashing\<close>

text \<open>
  The embedding follows \<^verbatim>\<open>app/utils/geo.py\<close>, \<^verbatim>\<open>app/services/route_normalizer.py\<close> and
  \<^verbatim>\<open>app/models/route_models.py\<close>.

  Numbers: Python's \<^verbatim>\<open>float\<close> is modelled by \<^typ>\<open>real\<close>, so every arithmetic step is
  exact: there is no rounding, no overflow or underflow, no NaN and no infinity. The
  functions of Python's \<^verbatim>\<open>math\<close> module are the real functions they approximate
  (\<open>sin\<close>, \<open>cos\<close>, \<open>sqrt\<close>, \<open>arcsin\<close>; \<^verbatim>\<open>atan2\<close> is written out below). Every theorem
  of this file is a statement about that exact-arithmetic reading of the code.
\<close>

subsection \<open>Python's math module and float operators, over the reals\<close>

definition radians :: "real \<Rightarrow> real" where
  "radians x = x * (pi / 180)"

definition degrees :: "real \<Rightarrow> real" where
  "degrees x = x * (180 / pi)"

text \<open>\<^verbatim>\<open>math.atan2(y, x)\<close>: the angle of the point \<open>(x, y)\<close>, in \<open>(-pi, pi]\<close>.\<close>

definition atan2 :: "real \<Rightarrow> real \<Rightarrow> real" where
  "atan2 y x =
     (if 0 < x then arctan (y / x)
      else if x < 0 then (if 0 \<le> y then arctan (y / x) + pi else arctan (y / x) - pi)
      else if 0 < y then pi / 2
      else if y < 0 then - (pi / 2)
      else 0)"

text \<open>Python's \<^verbatim>\<open>x % m\<close> on floats: the remainder has the sign of the divisor.\<close>

definition py_fmod :: "real \<Rightarrow> real \<Rightarrow> real" where
  "py_fmod x m = x - m * of_int \<lfloor>x / m\<rfloor>"

text \<open>
  Python's \<^verbatim>\<open>int(x // y)\<close> on floats. It raises for \<open>y = 0\<close>; its one call, in
  \<^verbatim>\<open>pick_spacing_m\<close>, divides by a spacing that is never 0 (lemma
  \<open>requested_or_default_nonzero\<close>).
\<close>

definition py_floordiv :: "real \<Rightarrow> real \<Rightarrow> int" where
  "py_floordiv x y = \<lfloor>x / y\<rfloor>"

subsection \<open>app/utils/geo.py\<close>

type_synonym point = "real \<times> real"  \<comment> \<open>(lon, lat)\<close>

text \<open>
  \<^verbatim>\<open>math.sqrt\<close> raises below 0 and \<^verbatim>\<open>math.asin\<close> outside \<open>[-1, 1]\<close>; in
  \<^verbatim>\<open>haversine_m\<close> neither does, for any arguments (lemma \<open>haversine_domain\<close>), so the
  function is total.
\<close>

definition haversine_m :: "real \<Rightarrow> real \<Rightarrow> real \<Rightarrow> real \<Rightarrow> real" where
  "haversine_m a_lon a_lat b_lon b_lat =
     (let r = 6371000;
          phi1 = radians a_lat;
          phi2 = radians b_lat;
          dphi = radians (b_lat - a_lat);
          dlmb = radians (b_lon - a_lon);
          s = (sin (dphi / 2))\<^sup>2 + cos phi1 * cos phi2 * (sin (dlmb / 2))\<^sup>2
      in 2 * r * arcsin (sqrt s))"

definition bearing_deg_true :: "real \<Rightarrow> real \<Rightarrow> real \<Rightarrow> real \<Rightarrow> real" where
  "bearing_deg_true a_lon a_lat b_lon b_lat =
     (let phi1 = radians a_lat;
          phi2 = radians b_lat;
          dlmb = radians (b_lon - a_lon);
          y = sin dlmb * cos phi2;
          x = cos phi1 * sin phi2 - sin phi1 * cos phi2 * cos dlmb;
          brng = degrees (atan2 y x)
      in py_fmod (brng + 360) 360)"

text \<open>The loop of \<^verbatim>\<open>polyline_length_m\<close>, with the running \<^verbatim>\<open>total\<close> as the accumulator \<open>tot\<close>.\<close>

fun polyline_length_acc :: "real \<Rightarrow> point list \<Rightarrow> real" where
  "polyline_length_acc tot (a # b # rest) =
     polyline_length_acc (tot + haversine_m (fst a) (snd a) (fst b) (snd b)) (b # rest)"
| "polyline_length_acc tot [a] = tot"
| "polyline_length_acc tot [] = tot"

definition polyline_length_m :: "point list \<Rightarrow> real" where
  "polyline_length_m points_lonlat = polyline_length_acc 0 points_lonlat"

datatype error =
    IndexError                \<comment> \<open>\<^verbatim>\<open>points_lonlat[0]\<close> or \<^verbatim>\<open>pts[-1]\<close> on an empty list\<close>
  | EmptySequence             \<comment> \<open>\<^verbatim>\<open>min()\<close> of an empty list\<close>
  | RouteTooSparse            \<comment> \<open>"Route collapses to <2 unique points after de-dupe"\<close>
  | DuplicatePointAdjacent    \<comment> \<open>"Adjacent duplicate points not allowed"\<close>
  | SegmentTooLong            \<comment> \<open>"Segment too long"\<close>
  | RouteTooShort             \<comment> \<open>"Route too short"\<close>
  | RouteTooLong              \<comment> \<open>"Route too long"\<close>
  | ZeroLengthRoute           \<comment> \<open>"Route length is zero"\<close>
  | ValidationError           \<comment> \<open>a pydantic field constraint or model validator failed\<close>

record BBoxWGS84 =
  min_lat :: real
  min_lon :: real
  max_lat :: real
  max_lon :: real

text \<open>Python's \<^verbatim>\<open>min\<close> and \<^verbatim>\<open>max\<close> of a list; both raise on an empty one.\<close>

fun py_min :: "real list \<Rightarrow> error + real" where
  "py_min [] = Inl EmptySequence"
| "py_min (x # xs) = Inr (fold min xs x)"

fun py_max :: "real list \<Rightarrow> error + real" where
  "py_max [] = Inl EmptySequence"
| "py_max (x # xs) = Inr (fold max xs x)"

definition bbox_wgs84 :: "point list \<Rightarrow> error + BBoxWGS84" where
  "bbox_wgs84 points_lonlat =
     (let lons = map fst points_lonlat;
          lats = map snd points_lonlat
      in case py_min lats of Inl e \<Rightarrow> Inl e | Inr mnlat \<Rightarrow>
         case py_min lons of Inl e \<Rightarrow> Inl e | Inr mnlon \<Rightarrow>
         case py_max lats of Inl e \<Rightarrow> Inl e | Inr mxlat \<Rightarrow>
         case py_max lons of Inl e \<Rightarrow> Inl e | Inr mxlon \<Rightarrow>
           Inr \<lparr>min_lat = mnlat, min_lon = mnlon, max_lat = mxlat, max_lon = mxlon\<rparr>)"

subsection \<open>app/models/route_models.py\<close>

text \<open>
  JSON values as \<^verbatim>\<open>model_dump(mode="json")\<close> produces them. A dict is the list of its items
  in insertion order; its keys are distinct.
\<close>

datatype json =
    JNull
  | JBool bool
  | JInt int
  | JNum real                          \<comment> \<open>a float\<close>
  | JStr string
  | JArr "json list"
  | JObj "(string \<times> json) list"

record RawRouteGeometry =
  geometry_type :: string              \<comment> \<open>field \<^verbatim>\<open>type\<close>, the literal "LineString"\<close>
  coordinates :: "point list"

record RawRouteProperties =
  prop_name :: "string option"            \<comment> \<open>field \<^verbatim>\<open>name\<close>\<close>
  prop_source :: "string option"          \<comment> \<open>field \<^verbatim>\<open>source\<close>\<close>
  created_at_utc :: "string option"   \<comment> \<open>the datetime in its ISO form\<close>
  prop_notes :: "string option"           \<comment> \<open>field \<^verbatim>\<open>notes\<close>\<close>
  client :: "(string \<times> json) list option"

record RawRouteFeature =
  route_version :: string
  feature_type :: string               \<comment> \<open>field \<^verbatim>\<open>type\<close>, the literal "Feature"\<close>
  geometry :: RawRouteGeometry
  properties :: RawRouteProperties

text \<open>The field validator of \<^verbatim>\<open>RawRouteGeometry.coordinates\<close>.\<close>

definition validate_coords :: "point list \<Rightarrow> error + point list" where
  "validate_coords coords =
     (if length coords < 2 then Inl ValidationError
      else if \<exists>p \<in> set coords. \<not> (-180 \<le> fst p \<and> fst p \<le> 180) \<or> \<not> (-90 \<le> snd p \<and> snd p \<le> 90)
           then Inl ValidationError
      else Inr coords)"

record NormalizedPoint =
  pt_i :: nat                          \<comment> \<open>field \<^verbatim>\<open>i\<close>\<close>
  pt_lat :: real                       \<comment> \<open>field \<^verbatim>\<open>lat\<close>\<close>
  pt_lon :: real                       \<comment> \<open>field \<^verbatim>\<open>lon\<close>\<close>
  cum_dist_m :: real
  seg_dist_m :: real
  bearing :: real                      \<comment> \<open>field \<^verbatim>\<open>bearing_deg_true\<close>\<close>

text \<open>Constructing a \<^verbatim>\<open>NormalizedPoint\<close> checks its field constraints.\<close>

definition mk_NormalizedPoint ::
  "nat \<Rightarrow> real \<Rightarrow> real \<Rightarrow> real \<Rightarrow> real \<Rightarrow> real \<Rightarrow> error + NormalizedPoint" where
  "mk_NormalizedPoint idx la lo sd cd br =
     (if 0 \<le> cd \<and> 0 \<le> sd \<and> 0 \<le> br \<and> br < 360
      then Inr \<lparr>pt_i = idx, pt_lat = la, pt_lon = lo, cum_dist_m = cd, seg_dist_m = sd, bearing = br\<rparr>
      else Inl ValidationError)"

record NormalizedRouteBody =
  spacing_m :: real
  total_distance_m :: real
  point_count :: nat
  bbox :: BBoxWGS84                    \<comment> \<open>field \<^verbatim>\<open>bbox_wgs84\<close>\<close>
  points :: "NormalizedPoint list"

text \<open>The field constraints of \<^verbatim>\<open>NormalizedRouteBody\<close>, then \<^verbatim>\<open>validate_point_count\<close>.\<close>

definition mk_NormalizedRouteBody ::
  "real \<Rightarrow> real \<Rightarrow> nat \<Rightarrow> BBoxWGS84 \<Rightarrow> NormalizedPoint list \<Rightarrow> error + NormalizedRouteBody" where
  "mk_NormalizedRouteBody sp tot cnt bb pts =
     (if \<not> (0 < sp \<and> 0 \<le> tot \<and> 2 \<le> cnt) then Inl ValidationError
      else if cnt \<noteq> length pts then Inl ValidationError
      else if length pts < 2 then Inl ValidationError
      else if map pt_i pts \<noteq> [0 ..< length pts] then Inl ValidationError
      else Inr \<lparr>spacing_m = sp, total_distance_m = tot, point_count = cnt,
                bbox = bb, points = pts\<rparr>)"

text \<open>
  \<^verbatim>\<open>NormalizedRoute\<close> without its \<^verbatim>\<open>created_at_utc\<close>, which is read from the clock.
\<close>

record NormalizedRoute =
  nr_route_version :: string
  route_id :: string
  normalized :: NormalizedRouteBody
  source_raw_hash :: "string option"

subsection \<open>app/services/route_normalizer.py: constants and hashing\<close>

definition DEFAULT_SPACING_M :: real where "DEFAULT_SPACING_M = 250"
definition MAX_POINTS :: int where "MAX_POINTS = 2500"
definition MIN_ROUTE_M :: real where "MIN_ROUTE_M = 25"
definition MAX_ROUTE_M :: real where "MAX_ROUTE_M = 500000"
definition MAX_SEGMENT_M :: real where "MAX_SEGMENT_M = 50000"

text \<open>
  What the code takes from Python's libraries and this file does not compute: the text
  \<^verbatim>\<open>json.dumps\<close> writes for an integer, for a float and for a string (also a key), and
  the hexadecimal SHA-256 digest of the UTF-8 bytes of a text. They are parameters of the
  model.
\<close>

record py_lib =
  int_repr :: "int \<Rightarrow> string"
  float_repr :: "real \<Rightarrow> string"
  str_repr :: "string \<Rightarrow> string"
  sha256_hexdigest :: "string \<Rightarrow> string"

text \<open>\<^verbatim>\<open>sep.join(parts)\<close>.\<close>

fun join :: "string \<Rightarrow> string list \<Rightarrow> string" where
  "join sep [] = []"
| "join sep [x] = x"
| "join sep (x # y # ys) = x @ sep @ join sep (y # ys)"

text \<open>
  \<^verbatim>\<open>json.dumps(obj, separators=(",", ":"), sort_keys=True)\<close>: the items of every dict are
  written in the order of their keys.
\<close>

function (sequential) json_dumps :: "py_lib \<Rightarrow> json \<Rightarrow> string" where
  "json_dumps lib JNull = ''null''"
| "json_dumps lib (JBool b) = (if b then ''true'' else ''false'')"
| "json_dumps lib (JInt n) = int_repr lib n"
| "json_dumps lib (JNum x) = float_repr lib x"
| "json_dumps lib (JStr s) = str_repr lib s"
| "json_dumps lib (JArr xs) = ''['' @ join '','' (map (json_dumps lib) xs) @ '']''"
| "json_dumps lib (JObj kvs) =
     ''{'' @ join '',''
        (map (\<lambda>kv. str_repr lib (fst kv) @ '':'' @ json_dumps lib (snd kv))
             (sort_key fst kvs)) @ ''}''"
  by pat_completeness auto
termination
proof (relation "measure (\<lambda>(lib, j). size j)")
  show "wf (measure (\<lambda>(lib, j). size j))" by simp
next
  fix lib :: py_lib and xs :: "json list" and x :: json
  assume "x \<in> set xs"
  then have "size x < Suc (size_list size xs)"
    by (induction xs) auto
  then show "((lib, x), (lib, JArr xs)) \<in> measure (\<lambda>(lib, j). size j)" by simp
next
  fix lib :: py_lib and kvs :: "(string \<times> json) list" and x :: "string \<times> json"
  assume "x \<in> set (sort_key fst kvs)"
  then have "x \<in> set kvs" by simp
  then have "size (snd x) < Suc (size_list (size_prod (\<lambda>k. 0) size) kvs)"
    by (induction kvs) auto
  then show "((lib, snd x), (lib, JObj kvs)) \<in> measure (\<lambda>(lib, j). size j)" by simp
qed

definition stable_json_sha256 :: "py_lib \<Rightarrow> json \<Rightarrow> string" where
  "stable_json_sha256 lib obj = ''sha256:'' @ sha256_hexdigest lib (json_dumps lib obj)"

text \<open>\<^verbatim>\<open>raw.model_dump(mode="json")\<close>: the fields in the order of their declaration.\<close>

definition opt_str :: "string option \<Rightarrow> json" where
  "opt_str v = (case v of None \<Rightarrow> JNull | Some s \<Rightarrow> JStr s)"

definition model_dump :: "RawRouteFeature \<Rightarrow> json" where
  "model_dump raw =
     JObj [(''route_version'', JStr (route_version raw)),
           (''type'', JStr (feature_type raw)),
           (''geometry'',
              JObj [(''type'', JStr (geometry_type (geometry raw))),
                    (''coordinates'',
                       JArr (map (\<lambda>p. JArr [JNum (fst p), JNum (snd p)])
                                 (coordinates (geometry raw))))]),
           (''properties'',
              JObj [(''name'', opt_str (prop_name (properties raw))),
                    (''source'', opt_str (prop_source (properties raw))),
                    (''created_at_utc'', opt_str (created_at_utc (properties raw))),
                    (''notes'', opt_str (prop_notes (properties raw))),
                    (''client'',
                       (case client (properties raw) of None \<Rightarrow> JNull | Some d \<Rightarrow> JObj d))])]"

subsection \<open>Guardrail validation\<close>

text \<open>The de-duplication loop; \<open>deduped\<close> is never empty, so \<^verbatim>\<open>deduped[-1]\<close> is its last.\<close>

fun dedupe_loop :: "point list \<Rightarrow> point list \<Rightarrow> point list" where
  "dedupe_loop deduped [] = deduped"
| "dedupe_loop deduped (p # ps) =
     (if p \<noteq> last deduped then dedupe_loop (deduped @ [p]) ps else dedupe_loop deduped ps)"

text \<open>The segment sanity loop over the adjacent pairs, stopping at the first raise.\<close>

fun segment_sanity :: "point list \<Rightarrow> error + unit" where
  "segment_sanity (a # b # rest) =
     (let seg = haversine_m (fst a) (snd a) (fst b) (snd b)
      in if seg \<le> 0 then Inl DuplicatePointAdjacent
         else if seg > MAX_SEGMENT_M then Inl SegmentTooLong
         else segment_sanity (b # rest))"
| "segment_sanity [a] = Inr ()"
| "segment_sanity [] = Inr ()"

definition validate_route_guardrails :: "point list \<Rightarrow> error + unit" where
  "validate_route_guardrails points_lonlat =
     (case points_lonlat of
        [] \<Rightarrow> Inl IndexError
      | p0 # ps \<Rightarrow>
         (let deduped = dedupe_loop [p0] ps
          in if length deduped < 2 then Inl RouteTooSparse
             else case segment_sanity deduped of
                    Inl e \<Rightarrow> Inl e
                  | Inr u \<Rightarrow>
                     (let tot = polyline_length_m deduped
                      in if tot < MIN_ROUTE_M then Inl RouteTooShort
                         else if tot > MAX_ROUTE_M then Inl RouteTooLong
                         else Inr ())))"

subsection \<open>Spacing selection\<close>

text \<open>\<^verbatim>\<open>requested_spacing_m or DEFAULT_SPACING_M\<close>: \<^verbatim>\<open>None\<close> and \<^verbatim>\<open>0.0\<close> are falsy.\<close>

definition requested_or_default :: "real option \<Rightarrow> real" where
  "requested_or_default requested_spacing_m =
     (case requested_spacing_m of
        None \<Rightarrow> DEFAULT_SPACING_M
      | Some r \<Rightarrow> if r = 0 then DEFAULT_SPACING_M else r)"

definition pick_spacing_m :: "real \<Rightarrow> real option \<Rightarrow> real" where
  "pick_spacing_m total_distance requested_spacing_m =
     (let spacing = requested_or_default requested_spacing_m
      in if total_distance \<le> 0 then spacing
         else let est_points = py_floordiv total_distance spacing + 2
              in if est_points \<le> MAX_POINTS then spacing
                 else total_distance / of_int (max 2 (MAX_POINTS - 1)))"

subsection \<open>Resampling\<close>

type_synonym seg = "real \<times> real \<times> real \<times> real \<times> real"
  \<comment> \<open>(a_lon, a_lat, b_lon, b_lat, seg_len)\<close>

type_synonym sample = "real \<times> real \<times> real \<times> real"
  \<comment> \<open>(lat, lon, seg_dist_m, cum_dist_m)\<close>

definition seg_len :: "seg \<Rightarrow> real" where  \<comment> \<open>\<^verbatim>\<open>s[-1]\<close>\<close>
  "seg_len s = (case s of (a_lon, a_lat, b_lon, b_lat, l) \<Rightarrow> l)"

fun build_segs :: "point list \<Rightarrow> seg list" where
  "build_segs (a # b # rest) =
     (fst a, snd a, fst b, snd b, haversine_m (fst a) (snd a) (fst b) (snd b))
       # build_segs (b # rest)"
| "build_segs [a] = []"
| "build_segs [] = []"

text \<open>
  The loop \<^verbatim>\<open>while d < total: targets.append(d); d += spacing_m\<close>. It need not end (a
  spacing that is not positive never reaches the total), so the model is a partial
  function: \<open>None\<close> is the loop that runs forever.
\<close>

partial_function (option) target_loop ::
  "real \<Rightarrow> real \<Rightarrow> real \<Rightarrow> real list \<Rightarrow> real list option" where
  "target_loop spacing tot d targets =
     (if d < tot then target_loop spacing tot (d + spacing) (targets @ [d])
      else Some targets)"

text \<open>The inner \<^verbatim>\<open>while\<close> that moves the segment cursor forward to the target \<open>t\<close>.\<close>

function advance_cursor :: "seg list \<Rightarrow> real \<Rightarrow> nat \<Rightarrow> real \<Rightarrow> nat \<times> real" where
  "advance_cursor segs t seg_idx seg_start_cum =
     (if seg_idx < length segs \<and> seg_start_cum + seg_len (segs ! seg_idx) < t
      then advance_cursor segs t (seg_idx + 1) (seg_start_cum + seg_len (segs ! seg_idx))
      else (seg_idx, seg_start_cum))"
  by pat_completeness auto
termination
  by (relation "measure (\<lambda>(segs, t, seg_idx, seg_start_cum). length segs - seg_idx)") auto

text \<open>
  The position of the target \<open>t\<close> once the cursor stands at \<open>seg_idx\<close>. The list \<open>segs\<close>
  is not empty here (an empty one has total 0, which raises before), so \<^verbatim>\<open>segs[-1]\<close>
  is its last element.
\<close>

definition interpolate :: "seg list \<Rightarrow> real \<Rightarrow> nat \<Rightarrow> real \<Rightarrow> real \<times> real" where
  "interpolate segs t seg_idx seg_start_cum =
     (if seg_idx \<ge> length segs
      then (case last segs of (a_lon, a_lat, b_lon, b_lat, l) \<Rightarrow> (b_lon, b_lat))
      else (case segs ! seg_idx of (a_lon, a_lat, b_lon, b_lat, l) \<Rightarrow>
              if l = 0 then (b_lon, b_lat)
              else (let frac = (t - seg_start_cum) / l
                    in (a_lon + frac * (b_lon - a_lon), a_lat + frac * (b_lat - a_lat)))))"

text \<open>The loop \<^verbatim>\<open>for t in targets\<close>, with its four variables as arguments.\<close>

fun sample_loop ::
  "seg list \<Rightarrow> real list \<Rightarrow> nat \<Rightarrow> real \<Rightarrow> real \<Rightarrow> sample list \<Rightarrow> sample list" where
  "sample_loop segs [] seg_idx seg_start_cum last_cum out = out"
| "sample_loop segs (t # ts) seg_idx seg_start_cum last_cum out =
     (case advance_cursor segs t seg_idx seg_start_cum of
        (seg_idx', seg_start_cum') \<Rightarrow>
          (case interpolate segs t seg_idx' seg_start_cum' of
             (lo, la) \<Rightarrow>
               (let seg_dist = (if out = [] then 0 else t - last_cum)
                in sample_loop segs ts seg_idx' seg_start_cum' t
                     (out @ [(la, lo, seg_dist, t)]))))"

definition resample_even_spacing :: "point list \<Rightarrow> real \<Rightarrow> (error + sample list) option" where
  "resample_even_spacing points_lonlat spacing =
     (let segs = build_segs points_lonlat;
          tot = sum_list (map seg_len segs)
      in if tot = 0 then Some (Inl ZeroLengthRoute)
         else case target_loop spacing tot spacing [0] of
                None \<Rightarrow> None
              | Some targets \<Rightarrow>
                  (let targets' = (if last targets \<noteq> tot then targets @ [tot] else targets)
                   in Some (Inr (sample_loop segs targets' 0 0 0 []))))"

subsection \<open>The normalizer\<close>

text \<open>Bearings between consecutive samples.\<close>

fun pair_bearings :: "sample list \<Rightarrow> real list" where
  "pair_bearings ((lat1, lon1, sd1, cd1) # (lat2, lon2, sd2, cd2) # rest) =
     bearing_deg_true lon1 lat1 lon2 lat2 # pair_bearings ((lat2, lon2, sd2, cd2) # rest)"
| "pair_bearings [s] = []"
| "pair_bearings [] = []"

definition all_bearings :: "sample list \<Rightarrow> real list" where
  "all_bearings samples =
     (let bearings = pair_bearings samples
      in if bearings \<noteq> [] then bearings @ [last bearings] else bearings @ [0])"

text \<open>
  The loop over \<^verbatim>\<open>enumerate(samples)\<close>; a \<^verbatim>\<open>NormalizedPoint\<close> that fails its constraints
  ends it. \<^verbatim>\<open>bearings\<close> has an entry for every sample, so \<^verbatim>\<open>bearings[i]\<close> is in range.
\<close>

fun build_pts ::
  "nat \<Rightarrow> sample list \<Rightarrow> real list \<Rightarrow> NormalizedPoint list \<Rightarrow> error + NormalizedPoint list" where
  "build_pts idx [] bearings pts = Inr pts"
| "build_pts idx ((la, lo, sd, cd) # rest) bearings pts =
     (case mk_NormalizedPoint idx la lo sd cd (bearings ! idx) of
        Inl e \<Rightarrow> Inl e
      | Inr p \<Rightarrow> build_pts (idx + 1) rest bearings (pts @ [p]))"

definition assemble ::
  "py_lib \<Rightarrow> string \<Rightarrow> RawRouteFeature \<Rightarrow> real \<Rightarrow> sample list \<Rightarrow> error + NormalizedRoute" where
  "assemble lib rid raw spacing samples =
     (case build_pts 0 samples (all_bearings samples) [] of
        Inl e \<Rightarrow> Inl e
      | Inr pts \<Rightarrow>
         (case bbox_wgs84 (map (\<lambda>p. (pt_lon p, pt_lat p)) pts) of
            Inl e \<Rightarrow> Inl e
          | Inr bb \<Rightarrow>
             (if pts = [] then Inl IndexError
              else case mk_NormalizedRouteBody spacing (cum_dist_m (last pts)) (length pts) bb pts of
                     Inl e \<Rightarrow> Inl e
                   | Inr body \<Rightarrow>
                       Inr \<lparr>nr_route_version = ''1.0'', route_id = rid, normalized = body,
                            source_raw_hash = Some (stable_json_sha256 lib (model_dump raw))\<rparr>)))"

text \<open>
  \<^verbatim>\<open>normalize_raw_route\<close>; \<open>None\<close> is the call that never returns, \<open>Some (Inl e)\<close> the
  call that raises.
\<close>

definition normalize_raw_route ::
  "py_lib \<Rightarrow> string \<Rightarrow> RawRouteFeature \<Rightarrow> real option \<Rightarrow> (error + NormalizedRoute) option" where
  "normalize_raw_route lib rid raw requested =
     (let points_lonlat = coordinates (geometry raw)
      in case validate_route_guardrails points_lonlat of
           Inl e \<Rightarrow> Some (Inl e)
         | Inr u \<Rightarrow>
            (let tot = polyline_length_m points_lonlat;
                 spacing = pick_spacing_m tot requested
             in case resample_even_spacing points_lonlat spacing of
                  None \<Rightarrow> None
                | Some (Inl e) \<Rightarrow> Some (Inl e)
                | Some (Inr samples) \<Rightarrow> Some (assemble lib rid raw spacing samples)))"

subsection \<open>Notions used to state and prove the properties\<close>

text \<open>
  The sequence with every run of consecutive identical points collapsed, as the
  validator builds it in its local \<^verbatim>\<open>deduped\<close>.
\<close>

definition deduped_of :: "point list \<Rightarrow> point list" where
  "deduped_of points_lonlat =
     (case points_lonlat of [] \<Rightarrow> [] | p0 # ps \<Rightarrow> dedupe_loop [p0] ps)"

text \<open>
  The segment cursor as the list of the segments from the cursor on, instead of the index
  \<^verbatim>\<open>seg_idx\<close>; \<open>adv\<close> is the inner \<^verbatim>\<open>while\<close> on that reading.
\<close>

fun adv :: "seg list \<Rightarrow> real \<Rightarrow> real \<Rightarrow> seg list \<times> real" where
  "adv [] t c = ([], c)"
| "adv (s # ss) t c = (if c + seg_len s < t then adv ss t (c + seg_len s) else (s # ss, c))"

definition interp_at :: "seg list \<Rightarrow> seg list \<Rightarrow> real \<Rightarrow> real \<Rightarrow> real \<times> real" where
  "interp_at segs rest t c =
     (case rest of
        [] \<Rightarrow> (case last segs of (a_lon, a_lat, b_lon, b_lat, l) \<Rightarrow> (b_lon, b_lat))
      | s # ss \<Rightarrow>
         (case s of (a_lon, a_lat, b_lon, b_lat, l) \<Rightarrow>
            if l = 0 then (b_lon, b_lat)
            else (let frac = (t - c) / l
                  in (a_lon + frac * (b_lon - a_lon), a_lat + frac * (b_lat - a_lat)))))"

text \<open>The position at distance \<open>t\<close> along the segments, found from the start.\<close>

definition locate :: "seg list \<Rightarrow> real \<Rightarrow> real \<times> real" where
  "locate segs t = (case adv segs t 0 of (rest, c) \<Rightarrow> interp_at segs rest t c)"

text \<open>The samples for a list of targets, each located from the start.\<close>

fun samples_of :: "seg list \<Rightarrow> bool \<Rightarrow> real \<Rightarrow> real list \<Rightarrow> sample list" where
  "samples_of segs first last_cum [] = []"
| "samples_of segs first last_cum (t # ts) =
     (snd (locate segs t), fst (locate segs t), (if first then 0 else t - last_cum), t)
       # samples_of segs False t ts"

text \<open>The segments whose two ends are the same point.\<close>

definition is_dup :: "seg \<Rightarrow> bool" where
  "is_dup s = (case s of (a_lon, a_lat, b_lon, b_lat, l) \<Rightarrow> (a_lon, a_lat) = (b_lon, b_lat))"

text \<open>The targets of the resampler for a positive spacing, in closed form.\<close>

definition targets_of :: "real \<Rightarrow> real \<Rightarrow> real list" where
  "targets_of spacing tot =
     (let ts = 0 # map (\<lambda>k. spacing + real k * spacing) [0 ..< nat \<lceil>(tot - spacing) / spacing\<rceil>]
      in if last ts \<noteq> tot then ts @ [tot] else ts)"

text \<open>The points that the loop over \<^verbatim>\<open>enumerate(samples)\<close> builds, and their constraints.\<close>

fun pts_of :: "nat \<Rightarrow> sample list \<Rightarrow> real list \<Rightarrow> NormalizedPoint list" where
  "pts_of idx [] bearings = []"
| "pts_of idx ((la, lo, sd, cd) # rest) bearings =
     \<lparr>pt_i = idx, pt_lat = la, pt_lon = lo, cum_dist_m = cd, seg_dist_m = sd,
      bearing = bearings ! idx\<rparr> # pts_of (idx + 1) rest bearings"

definition pt_ok :: "NormalizedPoint \<Rightarrow> bool" where
  "pt_ok p = (0 \<le> cum_dist_m p \<and> 0 \<le> seg_dist_m p \<and> 0 \<le> bearing p \<and> bearing p < 360)"

text \<open>
  Segments as validation leaves them: no length is negative, and a length is zero
  exactly for a segment between two identical points.
\<close>

definition segs_ok :: "seg list \<Rightarrow> bool" where
  "segs_ok S = (\<forall>s \<in> set S. 0 \<le> seg_len s \<and> (is_dup s \<longleftrightarrow> seg_len s = 0))"

text \<open>The raw input with its coordinates replaced.\<close>

definition with_coordinates :: "RawRouteFeature \<Rightarrow> point list \<Rightarrow> RawRouteFeature" where
  "with_coordinates raw pts = raw\<lparr>geometry := (geometry raw)\<lparr>coordinates := pts\<rparr>\<rparr>"

subsection \<open>A concrete route\<close>

text \<open>
  Two points on the meridian 0, one hundredth of a degree apart (about 1.1 km), with
  stand-ins for the library functions.
\<close>

definition example_points :: "point list" where
  "example_points = [(0, 0), (0, 1 / 100)]"

definition example_lib :: py_lib where
  "example_lib = \<lparr>int_repr = (\<lambda>n. ''0''), float_repr = (\<lambda>x. ''0.0''), str_repr = (\<lambda>s. s),
                  sha256_hexdigest = (\<lambda>s. s)\<rparr>"

definition example_raw :: "point list \<Rightarrow> RawRouteFeature" where
  "example_raw pts =
     \<lparr>route_version = ''1.0'', feature_type = ''Feature'',
      geometry = \<lparr>geometry_type = ''LineString'', coordinates = pts\<rparr>,
      properties = \<lparr>prop_name = None, prop_source = Some ''mobile'', created_at_utc = None,
                    prop_notes = None, client = None\<rparr>\<rparr>"

text \<open>
  What the normalizer returns for it with a requested spacing of 2000 m: the two end
  points.
\<close>

definition example_total :: real where
  "example_total = 6371000 * (1 / 100 * (pi / 180))"

definition example_route :: NormalizedRoute where
  "example_route =
     \<lparr>nr_route_version = ''1.0'', route_id = ''r1'',
      normalized =
        \<lparr>spacing_m = 2000, total_distance_m = example_total, point_count = 2,
         bbox = \<lparr>min_lat = 0, min_lon = 0, max_lat = 1 / 100, max_lon = 0\<rparr>,
         points =
           [\<lparr>pt_i = 0, pt_lat = 0, pt_lon = 0, cum_dist_m = 0, seg_dist_m = 0, bearing = 0\<rparr>,
            \<lparr>pt_i = 1, pt_lat = 1 / 100, pt_lon = 0, cum_dist_m = example_total,
             seg_dist_m = example_total, bearing = 0\<rparr>]\<rparr>,
      source_raw_hash =
        Some (stable_json_sha256 example_lib (model_dump (example_raw example_points)))\<rparr>"

subsection \<open>The same logical JSON value\<close>

text \<open>
  Two JSON values are the same logical value when they differ at most in the order in
  which dicts list their items, at any depth: equal atoms, lists related element by
  element, and dicts (each with distinct keys) with the same keys whose values under
  every key are related.
\<close>

inductive same_json :: "json \<Rightarrow> json \<Rightarrow> bool" where
  same_atom: "same_json j j"
| same_arr: "list_all2 same_json xs ys \<Longrightarrow> same_json (JArr xs) (JArr ys)"
| same_obj:
    "distinct (map fst kvs) \<Longrightarrow> distinct (map fst kvs') \<Longrightarrow>
     fst ` set kvs = fst ` set kvs' \<Longrightarrow>
     (\<forall>k v v'. (k, v) \<in> set kvs \<longrightarrow> (k, v') \<in> set kvs' \<longrightarrow> same_json v v') \<Longrightarrow>
     same_json (JObj kvs) (JObj kvs')"

text \<open>The concrete route with a \<^verbatim>\<open>client\<close> dict.\<close>

definition example_raw_client :: "(string \<times> json) list \<Rightarrow> RawRouteFeature" where
  "example_raw_client d =
     (example_raw example_points)\<lparr>properties := (properties (example_raw example_points))\<lparr>client := Some d\<rparr>\<rparr>"

section \<open>Lemmas\<close>

subsection \<open>Geo primitives\<close>

lemma atan2_bounds: "- pi < atan2 y x \<and> atan2 y x \<le> pi"
proof -
  have b: "- (pi / 2) < arctan (y / x)" "arctan (y / x) < pi / 2"
    by (rule arctan_lbound, rule arctan_ubound)
  consider "0 < x" | "x < 0" "0 \<le> y" | "x < 0" "y < 0" | "x = 0"
    by linarith
  then show ?thesis
  proof cases
    case 1
    then show ?thesis using b by (simp add: atan2_def)
  next
    case 2
    then have "y / x \<le> 0" by (simp add: divide_nonneg_neg)
    then have "arctan (y / x) \<le> 0" by (simp add: arctan_le_zero_iff)
    then show ?thesis using 2 b by (simp add: atan2_def)
  next
    case 3
    then have "0 < y / x" by (simp add: divide_neg_neg)
    then have "0 < arctan (y / x)" by (simp add: zero_less_arctan_iff)
    then show ?thesis using 3 b by (simp add: atan2_def)
  next
    case 4
    have "atan2 y x = pi / 2 \<or> atan2 y x = - (pi / 2) \<or> atan2 y x = 0"
      using 4 by (simp add: atan2_def)
    then show ?thesis using pi_gt_zero by linarith
  qed
qed

lemma py_fmod_range:
  assumes "0 < m"
  shows "0 \<le> py_fmod x m \<and> py_fmod x m < m"
proof -
  define q :: real where "q = of_int \<lfloor>x / m\<rfloor>"
  have f1: "q \<le> x / m" unfolding q_def by (rule of_int_floor_le)
  have f2: "x / m < q + 1" unfolding q_def by linarith
  from f1 assms have "q * m \<le> x"
    by (simp only: pos_le_divide_eq)
  moreover from f2 assms have "x < (q + 1) * m"
    by (simp only: pos_divide_less_eq)
  ultimately show ?thesis
    unfolding py_fmod_def q_def[symmetric] by (simp add: algebra_simps)
qed

lemma bearing_range: "0 \<le> bearing_deg_true a_lon a_lat b_lon b_lat \<and> bearing_deg_true a_lon a_lat b_lon b_lat < 360"
  unfolding bearing_deg_true_def Let_def by (rule py_fmod_range) simp

lemma haversine_same: "haversine_m lo la lo la = 0"
  by (simp add: haversine_m_def radians_def)

lemma haversine_meridian:
  assumes "\<bar>la2 - la1\<bar> \<le> 180"
  shows "haversine_m lo la1 lo la2 = 6371000 * (\<bar>la2 - la1\<bar> * (pi / 180))"
proof -
  define x where "x = radians (la2 - la1) / 2"
  have xe: "\<bar>x\<bar> = \<bar>la2 - la1\<bar> * (pi / 360)"
    unfolding x_def radians_def by (simp add: abs_mult)
  have "\<bar>la2 - la1\<bar> * (pi / 360) \<le> 180 * (pi / 360)"
    using assms by (intro mult_right_mono) auto
  also have "180 * (pi / 360) = pi / 2" by simp
  finally have xb: "\<bar>x\<bar> \<le> pi / 2" unfolding xe .
  have "arcsin (sqrt ((sin x)\<^sup>2)) = arcsin \<bar>sin x\<bar>" by simp
  also have "\<bar>sin x\<bar> = sin \<bar>x\<bar>"
  proof (cases "0 \<le> x")
    case True
    then have "0 \<le> sin x" using xb by (intro sin_ge_zero) auto
    then show ?thesis using True by simp
  next
    case False
    then have "0 \<le> sin (- x)" using xb by (intro sin_ge_zero) auto
    then show ?thesis using False by simp
  qed
  also have "arcsin (sin \<bar>x\<bar>) = \<bar>x\<bar>"
    using xb by (intro arcsin_sin) auto
  finally have as: "arcsin (sqrt ((sin x)\<^sup>2)) = \<bar>x\<bar>" .
  have "haversine_m lo la1 lo la2 = 2 * 6371000 * arcsin (sqrt ((sin x)\<^sup>2))"
    unfolding haversine_m_def Let_def x_def by (simp add: radians_def)
  also have "\<dots> = 2 * 6371000 * (\<bar>la2 - la1\<bar> * (pi / 360))"
    unfolding as xe ..
  finally show ?thesis by simp
qed

lemma two_prod_le_squares: "2 * (x * y * k) \<le> x\<^sup>2 + y\<^sup>2" if "\<bar>k\<bar> \<le> 1" for x y k :: real
proof -
  have "x * y * k \<le> \<bar>x * y * k\<bar>" by simp
  also have "\<dots> = \<bar>x\<bar> * \<bar>y\<bar> * \<bar>k\<bar>" by (simp add: abs_mult)
  also have "\<dots> \<le> \<bar>x\<bar> * \<bar>y\<bar> * 1" using that by (intro mult_left_mono) auto
  finally have a: "x * y * k \<le> \<bar>x\<bar> * \<bar>y\<bar>" by simp
  have "0 \<le> (\<bar>x\<bar> - \<bar>y\<bar>)\<^sup>2" by simp
  also have "\<dots> = x\<^sup>2 + y\<^sup>2 - 2 * (\<bar>x\<bar> * \<bar>y\<bar>)" by (simp add: power2_diff)
  finally have "2 * (\<bar>x\<bar> * \<bar>y\<bar>) \<le> x\<^sup>2 + y\<^sup>2" by simp
  with a show ?thesis by linarith
qed

lemma sphere_dot_bounds:
  fixes p1 p2 l :: real
  shows "\<bar>sin p1 * sin p2 + cos p1 * cos p2 * cos l\<bar> \<le> 1"
proof -
  have k: "\<bar>cos l\<bar> \<le> 1" "\<bar>- cos l\<bar> \<le> 1" by simp_all
  have s: "(sin p1)\<^sup>2 + (cos p1)\<^sup>2 = 1" "(sin p2)\<^sup>2 + (cos p2)\<^sup>2 = 1" by simp_all
  have a1: "2 * (sin p1 * sin p2 * 1) \<le> (sin p1)\<^sup>2 + (sin p2)\<^sup>2"
    by (rule two_prod_le_squares) simp
  have a2: "2 * (sin p1 * sin p2 * (- 1)) \<le> (sin p1)\<^sup>2 + (sin p2)\<^sup>2"
    by (rule two_prod_le_squares) simp
  have b1: "2 * (cos p1 * cos p2 * cos l) \<le> (cos p1)\<^sup>2 + (cos p2)\<^sup>2"
    by (rule two_prod_le_squares[OF k(1)])
  have b2: "2 * (cos p1 * cos p2 * (- cos l)) \<le> (cos p1)\<^sup>2 + (cos p2)\<^sup>2"
    by (rule two_prod_le_squares[OF k(2)])
  have a1': "2 * (sin p1 * sin p2) \<le> (sin p1)\<^sup>2 + (sin p2)\<^sup>2" using a1 by simp
  have a2': "- (2 * (sin p1 * sin p2)) \<le> (sin p1)\<^sup>2 + (sin p2)\<^sup>2" using a2 by simp
  have b2': "- (2 * (cos p1 * cos p2 * cos l)) \<le> (cos p1)\<^sup>2 + (cos p2)\<^sup>2" using b2 by simp
  have "sin p1 * sin p2 + cos p1 * cos p2 * cos l \<le> 1" using a1' b1 s by linarith
  moreover have "- 1 \<le> sin p1 * sin p2 + cos p1 * cos p2 * cos l" using a2' b2' s by linarith
  ultimately show ?thesis by linarith
qed

lemma sin_half_squared: "(sin (x / 2))\<^sup>2 = (1 - cos x) / 2" for x :: real
proof -
  define w where "w = x / 2"
  have "x = 2 * w" by (simp add: w_def)
  then have "cos x = 1 - 2 * (sin w)\<^sup>2" by (simp only: cos_double_sin)
  then show ?thesis by (simp add: w_def)
qed

text \<open>
  The haversine term lies between 0 and 1 for all arguments: it is half of one minus the
  inner product of two unit vectors.
\<close>

lemma haversine_domain:
  fixes a_lat b_lat a_lon b_lon :: real
  defines "s \<equiv> (sin (radians (b_lat - a_lat) / 2))\<^sup>2
                 + cos (radians a_lat) * cos (radians b_lat) * (sin (radians (b_lon - a_lon) / 2))\<^sup>2"
  shows "0 \<le> s \<and> s \<le> 1 \<and> 0 \<le> sqrt s \<and> sqrt s \<le> 1"
proof -
  let ?p1 = "radians a_lat" and ?p2 = "radians b_lat" and ?l = "radians (b_lon - a_lon)"
  have d: "radians (b_lat - a_lat) = ?p2 - ?p1" by (simp add: radians_def left_diff_distrib)
  have "s = (1 - cos (?p2 - ?p1)) / 2 + cos ?p1 * cos ?p2 * ((1 - cos ?l) / 2)"
    unfolding s_def d sin_half_squared ..
  also have "\<dots> = (1 - (sin ?p1 * sin ?p2 + cos ?p1 * cos ?p2 * cos ?l)) / 2"
    by (simp add: cos_diff field_simps)
  finally have e: "s = (1 - (sin ?p1 * sin ?p2 + cos ?p1 * cos ?p2 * cos ?l)) / 2" .
  have "\<bar>sin ?p1 * sin ?p2 + cos ?p1 * cos ?p2 * cos ?l\<bar> \<le> 1" by (rule sphere_dot_bounds)
  then have "- 1 \<le> sin ?p1 * sin ?p2 + cos ?p1 * cos ?p2 * cos ?l"
    and "sin ?p1 * sin ?p2 + cos ?p1 * cos ?p2 * cos ?l \<le> 1"
    by (simp_all add: abs_le_iff)
  then have "0 \<le> s \<and> s \<le> 1" unfolding e by simp
  then show ?thesis by simp
qed

lemma haversine_nonneg: "0 \<le> haversine_m a_lon a_lat b_lon b_lat"
proof -
  let ?s = "(sin (radians (b_lat - a_lat) / 2))\<^sup>2
                 + cos (radians a_lat) * cos (radians b_lat) * (sin (radians (b_lon - a_lon) / 2))\<^sup>2"
  have "0 \<le> sqrt ?s" "sqrt ?s \<le> 1" using haversine_domain[of b_lat a_lat b_lon a_lon] by blast+
  then have "arcsin 0 \<le> arcsin (sqrt ?s)" by (intro arcsin_le_arcsin) simp_all
  then show ?thesis by (simp add: haversine_m_def Let_def)
qed

subsection \<open>De-duplication, lengths and the guardrails\<close>

lemma dedupe_loop_remdups:
  "acc \<noteq> [] \<Longrightarrow> dedupe_loop acc ps = butlast acc @ remdups_adj (last acc # ps)"
proof (induction ps arbitrary: acc)
  case Nil
  then show ?case by simp
next
  case (Cons p ps)
  then show ?case by (simp add: butlast_append)
qed

lemma deduped_of_remdups: "deduped_of pts = remdups_adj pts"
  by (cases pts) (simp_all add: deduped_of_def dedupe_loop_remdups)

lemma polyline_length_acc_segs:
  "polyline_length_acc tot pts = tot + sum_list (map seg_len (build_segs pts))"
  by (induction tot pts rule: polyline_length_acc.induct) (simp_all add: seg_len_def)

lemma polyline_length_segs:
  "polyline_length_m pts = sum_list (map seg_len (build_segs pts))"
  by (simp add: polyline_length_m_def polyline_length_acc_segs)

lemma build_segs_remdups:
  "build_segs (remdups_adj pts) = filter (\<lambda>s. \<not> is_dup s) (build_segs pts)"
proof (induction pts rule: remdups_adj.induct)
  case (3 x y xs)
  show ?case
  proof (cases "x = y")
    case True
    with 3 show ?thesis by (simp add: is_dup_def)
  next
    case False
    obtain zs where zs: "remdups_adj (y # xs) = y # zs"
      using hd_remdups_adj[of "y # xs"] by (cases "remdups_adj (y # xs)") auto
    have nd: "\<not> is_dup (fst x, snd x, fst y, snd y, haversine_m (fst x) (snd x) (fst y) (snd y))"
      using False by (simp add: is_dup_def prod_eq_iff)
    have "build_segs (remdups_adj (x # y # xs)) = build_segs (x # y # zs)"
      using False zs by simp
    also have "\<dots> = (fst x, snd x, fst y, snd y, haversine_m (fst x) (snd x) (fst y) (snd y))
                     # build_segs (remdups_adj (y # xs))"
      using zs by simp
    finally show ?thesis using 3 False nd by simp
  qed
qed simp_all

lemma is_dup_len:
  "s \<in> set (build_segs pts) \<Longrightarrow> is_dup s \<Longrightarrow> seg_len s = 0"
  by (induction pts rule: build_segs.induct)
     (auto simp: is_dup_def seg_len_def haversine_same)

lemma sum_list_filter_zero:
  "(\<And>x. x \<in> set xs \<Longrightarrow> \<not> P x \<Longrightarrow> f x = (0::real)) \<Longrightarrow>
   sum_list (map f (filter P xs)) = sum_list (map f xs)"
  by (induction xs) auto

lemma polyline_length_remdups:
  "polyline_length_m (remdups_adj pts) = polyline_length_m pts"
  unfolding polyline_length_segs build_segs_remdups
  by (rule sum_list_filter_zero) (auto dest: is_dup_len)

lemma segment_sanity_iff:
  "segment_sanity pts = Inr () \<longleftrightarrow>
     (\<forall>s \<in> set (build_segs pts). 0 < seg_len s \<and> seg_len s \<le> MAX_SEGMENT_M)"
  by (induction pts rule: segment_sanity.induct) (auto simp: seg_len_def Let_def)

lemma segment_sanity_errors:
  "segment_sanity pts = Inl e \<Longrightarrow> e = DuplicatePointAdjacent \<or> e = SegmentTooLong"
  by (induction pts rule: segment_sanity.induct) (auto simp: Let_def split: if_splits)

lemma validate_iff:
  "validate_route_guardrails pts = Inr () \<longleftrightarrow>
     pts \<noteq> [] \<and> 2 \<le> length (remdups_adj pts)
     \<and> (\<forall>s \<in> set (build_segs (remdups_adj pts)). 0 < seg_len s \<and> seg_len s \<le> MAX_SEGMENT_M)
     \<and> MIN_ROUTE_M \<le> polyline_length_m pts \<and> polyline_length_m pts \<le> MAX_ROUTE_M"
proof (cases pts)
  case Nil
  then show ?thesis by (simp add: validate_route_guardrails_def)
next
  case (Cons p0 ps)
  have d: "dedupe_loop [p0] ps = remdups_adj pts"
    using Cons by (simp add: dedupe_loop_remdups)
  show ?thesis
    unfolding validate_route_guardrails_def Cons list.case Let_def d[unfolded Cons]
    using segment_sanity_iff[of "remdups_adj (p0 # ps)"] polyline_length_remdups[of "p0 # ps"]
    by (auto split: sum.splits)
qed

subsection \<open>The targets loop\<close>

lemma target_loop_closed:
  assumes "0 < spacing"
  shows "target_loop spacing tot d targets
           = Some (targets @ map (\<lambda>k. d + real k * spacing) [0 ..< nat \<lceil>(tot - d) / spacing\<rceil>])"
proof (induction n \<equiv> "nat \<lceil>(tot - d) / spacing\<rceil>" arbitrary: d targets)
  case 0
  then have "\<lceil>(tot - d) / spacing\<rceil> \<le> 0" by simp
  then have "(tot - d) / spacing \<le> 0" by (simp add: ceiling_le_iff)
  then have "\<not> d < tot" using assms by (simp add: divide_le_0_iff)
  then show ?case using 0[symmetric] by (subst target_loop.simps) simp
next
  case (Suc n)
  then have "0 < \<lceil>(tot - d) / spacing\<rceil>" by linarith
  then have "0 < (tot - d) / spacing" by (simp add: less_ceiling_iff)
  then have lt: "d < tot" using assms by (simp add: zero_less_divide_iff)
  have "(tot - (d + spacing)) / spacing = (tot - d) / spacing - 1"
    using assms by (simp add: field_simps)
  then have "nat \<lceil>(tot - (d + spacing)) / spacing\<rceil> = nat \<lceil>(tot - d) / spacing\<rceil> - 1"
    by (simp add: nat_diff_distrib')
  then have n: "n = nat \<lceil>(tot - (d + spacing)) / spacing\<rceil>"
    using Suc(2) by simp
  have "target_loop spacing tot d targets = target_loop spacing tot (d + spacing) (targets @ [d])"
    using lt by (subst target_loop.simps) simp
  also have "\<dots> = Some ((targets @ [d]) @ map (\<lambda>k. (d + spacing) + real k * spacing) [0 ..< n])"
    using Suc(1)[OF n] n by simp
  also have "(targets @ [d]) @ map (\<lambda>k. (d + spacing) + real k * spacing) [0 ..< n]
               = targets @ map (\<lambda>k. d + real k * spacing) [0 ..< Suc n]"
    by (simp add: upt_conv_Cons map_Suc_upt[symmetric] algebra_simps del: upt_Suc)
  finally show ?case using Suc(2) by simp
qed

lemma target_loop_Some_pos_aux:
  assumes "target_loop spacing tot d targets = Some ts"
  shows "d < tot \<longrightarrow> 0 < spacing"
proof (rule target_loop.raw_induct
         [where P = "\<lambda>spacing tot d targets ts. d < tot \<longrightarrow> 0 < spacing", OF _ assms])
  fix loop :: "real \<Rightarrow> real \<Rightarrow> real \<Rightarrow> real list \<Rightarrow> real list option"
    and spacing tot d :: real and targets ts :: "real list"
  assume IH: "\<And>spacing tot d targets ts.
                 loop spacing tot d targets = Some ts \<Longrightarrow> d < tot \<longrightarrow> 0 < spacing"
    and eq: "(if d < tot then loop spacing tot (d + spacing) (targets @ [d]) else Some targets)
               = Some ts"
  show "d < tot \<longrightarrow> 0 < spacing"
  proof (intro impI, rule ccontr)
    assume lt: "d < tot" and np: "\<not> 0 < spacing"
    then have lt': "d + spacing < tot" by linarith
    have "loop spacing tot (d + spacing) (targets @ [d]) = Some ts"
      using eq lt by simp
    then have "d + spacing < tot \<longrightarrow> 0 < spacing" by (rule IH)
    with lt' np show False by simp
  qed
qed

lemma target_loop_Some_pos:
  "target_loop spacing tot d targets = Some ts \<Longrightarrow> d < tot \<Longrightarrow> 0 < spacing"
  using target_loop_Some_pos_aux by blast

lemma resample_targets:
  assumes "0 < spacing" "sum_list (map seg_len (build_segs pts)) \<noteq> 0"
  shows "resample_even_spacing pts spacing
           = Some (Inr (sample_loop (build_segs pts)
                          (targets_of spacing (sum_list (map seg_len (build_segs pts)))) 0 0 0 []))"
  using assms
  by (simp add: resample_even_spacing_def Let_def target_loop_closed targets_of_def)

lemma resample_Some_pos:
  assumes "resample_even_spacing pts spacing = Some res" "0 < sum_list (map seg_len (build_segs pts))"
  shows "0 < spacing"
proof (cases "spacing < sum_list (map seg_len (build_segs pts))")
  case True
  from assms obtain ts where "target_loop spacing (sum_list (map seg_len (build_segs pts))) spacing [0] = Some ts"
    by (auto simp: resample_even_spacing_def Let_def split: option.splits)
  then show ?thesis using True by (rule target_loop_Some_pos)
next
  case False
  then show ?thesis using assms(2) by linarith
qed

subsection \<open>The segment cursor and the samples loop\<close>

lemma adv_suffix: "\<exists>k \<le> length S. fst (adv S t c) = drop k S"
proof (induction S arbitrary: c)
  case Nil
  then show ?case by simp
next
  case (Cons s S)
  show ?case
  proof (cases "c + seg_len s < t")
    case True
    from Cons[of "c + seg_len s"] obtain k where "k \<le> length S" "fst (adv S t (c + seg_len s)) = drop k S"
      by blast
    then show ?thesis using True by (intro exI[of _ "Suc k"]) simp
  next
    case False
    then show ?thesis by (intro exI[of _ 0]) simp
  qed
qed

lemma advance_cursor_adv:
  "j \<le> length segs \<Longrightarrow>
   advance_cursor segs t j c
     = (length segs - length (fst (adv (drop j segs) t c)), snd (adv (drop j segs) t c))"
proof (induction segs t j c rule: advance_cursor.induct)
  case (1 segs t j c)
  show ?case
  proof (cases "j < length segs")
    case True
    then have d: "drop j segs = segs ! j # drop (Suc j) segs"
      by (simp add: Cons_nth_drop_Suc)
    show ?thesis
    proof (cases "c + seg_len (segs ! j) < t")
      case lt: True
      have "advance_cursor segs t j c = advance_cursor segs t (j + 1) (c + seg_len (segs ! j))"
        using True lt by (subst advance_cursor.simps) simp
      also have "\<dots> = (length segs - length (fst (adv (drop (j + 1) segs) t (c + seg_len (segs ! j)))),
                        snd (adv (drop (j + 1) segs) t (c + seg_len (segs ! j))))"
        using 1(1) True lt by simp
      finally show ?thesis using d lt by simp
    next
      case ge: False
      have "advance_cursor segs t j c = (j, c)"
        using ge by (subst advance_cursor.simps) simp
      then show ?thesis using d ge True by simp
    qed
  next
    case False
    with 1(2) have "j = length segs" by simp
    moreover have "advance_cursor segs t j c = (j, c)"
      using False by (subst advance_cursor.simps) simp
    ultimately show ?thesis by simp
  qed
qed

lemma advance_cursor_drop:
  assumes "j \<le> length segs" "advance_cursor segs t j c = (j', c')"
  shows "j' \<le> length segs \<and> drop j' segs = fst (adv (drop j segs) t c)
         \<and> c' = snd (adv (drop j segs) t c)"
proof -
  obtain k where k: "k \<le> length (drop j segs)" "fst (adv (drop j segs) t c) = drop k (drop j segs)"
    using adv_suffix by blast
  from assms advance_cursor_adv[OF assms(1), of t c]
  have j': "j' = length segs - length (fst (adv (drop j segs) t c))"
    and c': "c' = snd (adv (drop j segs) t c)" by simp_all
  from k assms(1) have "j' = j + k" unfolding j' by simp
  then show ?thesis using k assms(1) c' by (simp add: add.commute)
qed

lemma interpolate_interp_at:
  "j \<le> length segs \<Longrightarrow> interpolate segs t j c = interp_at segs (drop j segs) t c"
proof (cases "j < length segs")
  case True
  then have "drop j segs = segs ! j # drop (Suc j) segs"
    by (simp add: Cons_nth_drop_Suc)
  then show ?thesis using True by (simp add: interpolate_def interp_at_def)
next
  case False
  assume "j \<le> length segs"
  with False show ?thesis by (simp add: interpolate_def interp_at_def)
qed

lemma adv_mono:
  "t1 \<le> t2 \<Longrightarrow> adv (fst (adv S t1 c)) t2 (snd (adv S t1 c)) = adv S t2 c"
  by (induction S arbitrary: c) auto

lemma sample_loop_samples_of:
  assumes "j \<le> length segs" "sorted ts" "\<forall>t \<in> set ts. lb \<le> t"
    and "\<forall>t. lb \<le> t \<longrightarrow> adv (drop j segs) t c = adv segs t 0"
  shows "sample_loop segs ts j c last_cum out = out @ samples_of segs (out = []) last_cum ts"
  using assms
proof (induction ts arbitrary: j c last_cum out lb)
  case Nil
  then show ?case by simp
next
  case (Cons t ts)
  obtain j' c' where ac: "advance_cursor segs t j c = (j', c')" by (cases "advance_cursor segs t j c")
  from advance_cursor_drop[OF Cons.prems(1) ac]
  have j': "j' \<le> length segs" and dr: "drop j' segs = fst (adv (drop j segs) t c)"
    and c': "c' = snd (adv (drop j segs) t c)" by simp_all
  have lbt: "lb \<le> t" using Cons.prems(3) by simp
  then have eq0: "adv (drop j segs) t c = adv segs t 0" using Cons.prems(4) by simp
  have loc: "interpolate segs t j' c' = locate segs t"
    using j' dr c' eq0 by (simp add: interpolate_interp_at locate_def split: prod.splits)
  have inv: "\<forall>t2. t \<le> t2 \<longrightarrow> adv (drop j' segs) t2 c' = adv segs t2 0"
    using adv_mono[of t _ segs 0] dr c' eq0 by simp
  have srt: "sorted ts" "\<forall>x \<in> set ts. t \<le> x" using Cons.prems(2) by simp_all
  obtain lo la where ll: "locate segs t = (lo, la)" by (cases "locate segs t")
  have "sample_loop segs (t # ts) j c last_cum out
          = sample_loop segs ts j' c' t (out @ [(la, lo, (if out = [] then 0 else t - last_cum), t)])"
    using ac loc ll by (simp add: Let_def)
  also have "\<dots> = (out @ [(la, lo, (if out = [] then 0 else t - last_cum), t)])
                    @ samples_of segs False t ts"
    using Cons.IH[OF j' srt inv] by simp
  finally show ?case using ll by simp
qed

lemma sample_loop_init:
  "sorted ts \<Longrightarrow> sample_loop segs ts 0 0 0 [] = samples_of segs True 0 ts"
proof (cases ts)
  case Nil
  then show ?thesis by simp
next
  case (Cons t ts')
  assume "sorted ts"
  then show ?thesis
    using sample_loop_samples_of[of 0 segs ts "hd ts" 0 0 "[]"] Cons by auto
qed

subsection \<open>Targets and samples\<close>

lemma targets_of_elems:
  assumes "0 < spacing" "0 < tot" "t \<in> set (targets_of spacing tot)"
  shows "0 \<le> t \<and> t \<le> tot"
proof -
  let ?n = "nat \<lceil>(tot - spacing) / spacing\<rceil>"
  have mid: "0 \<le> spacing + real k * spacing \<and> spacing + real k * spacing < tot" if "k < ?n" for k
  proof -
    from that have "int k < \<lceil>(tot - spacing) / spacing\<rceil>" by linarith
    then have "real k < (tot - spacing) / spacing" by (simp add: less_ceiling_iff)
    then have "real k * spacing < tot - spacing"
      using assms(1) by (simp add: pos_less_divide_eq)
    moreover have "0 \<le> real k * spacing" using assms(1) by simp
    ultimately show ?thesis using assms(1) by linarith
  qed
  from assms(3) have "t = 0 \<or> t = tot \<or> (\<exists>k < ?n. t = spacing + real k * spacing)"
    by (auto simp: targets_of_def Let_def split: if_splits)
  then show ?thesis using mid assms(2) by fastforce
qed

lemma sorted_append_last:
  "sorted xs \<Longrightarrow> \<forall>x \<in> set xs. x \<le> (y::real) \<Longrightarrow> sorted (xs @ [y])"
  by (simp add: sorted_append)

lemma targets_of_sorted:
  assumes "0 < spacing" "0 < tot"
  shows "sorted (targets_of spacing tot)"
proof -
  let ?n = "nat \<lceil>(tot - spacing) / spacing\<rceil>"
  let ?ts = "0 # map (\<lambda>k. spacing + real k * spacing) [0 ..< ?n]"
  have "sorted_wrt (\<lambda>x y. spacing + real x * spacing \<le> spacing + real y * spacing) [0 ..< ?n]"
    by (rule sorted_wrt_mono_rel[OF _ sorted_wrt_upt]) (use assms(1) in auto)
  then have "sorted (map (\<lambda>k. spacing + real k * spacing) [0 ..< ?n])"
    by (simp add: sorted_map)
  moreover have "\<forall>x \<in> set (map (\<lambda>k. spacing + real k * spacing) [0 ..< ?n]). 0 \<le> x"
    using assms(1) by auto
  ultimately have s: "sorted ?ts" by simp
  show ?thesis
  proof (cases "last ?ts \<noteq> tot")
    case True
    then have e: "targets_of spacing tot = ?ts @ [tot]"
      by (simp add: targets_of_def Let_def)
    have "\<forall>x \<in> set ?ts. x \<le> tot"
      using targets_of_elems[OF assms] unfolding e by simp
    with s show ?thesis unfolding e by (rule sorted_append_last)
  next
    case False
    then have "targets_of spacing tot = ?ts" by (simp add: targets_of_def Let_def)
    with s show ?thesis by simp
  qed
qed

lemma targets_of_hd: "hd (targets_of spacing tot) = 0"
  by (simp add: targets_of_def Let_def)

lemma targets_of_Cons: "\<exists>ts. targets_of spacing tot = 0 # ts"
  by (simp add: targets_of_def Let_def)

lemma targets_of_last: "last (targets_of spacing tot) = tot"
  by (simp add: targets_of_def Let_def)

lemma targets_of_length: "0 < tot \<Longrightarrow> 2 \<le> length (targets_of spacing tot)"
  by (cases "nat \<lceil>(tot - spacing) / spacing\<rceil>") (auto simp: targets_of_def Let_def)

lemma targets_of_tail_pos:
  assumes "0 < spacing" "0 < tot" "targets_of spacing tot = t0 # ts" "t \<in> set ts"
  shows "0 < t"
proof -
  let ?n = "nat \<lceil>(tot - spacing) / spacing\<rceil>"
  define f where "f = (\<lambda>k. spacing + real k * spacing)"
  have "ts = map f [0 ..< ?n] \<or> ts = map f [0 ..< ?n] @ [tot]"
    using assms(3) unfolding f_def by (simp add: targets_of_def Let_def split: if_splits)
  with assms(4) have "t = tot \<or> (\<exists>k. t = f k)" by auto
  moreover have "0 < f k" for k
    using assms(1) unfolding f_def by (simp add: add_pos_nonneg)
  ultimately show ?thesis using assms(2) by auto
qed

lemma samples_of_cum: "map (\<lambda>s. snd (snd (snd s))) (samples_of segs f l ts) = ts"
  by (induction ts arbitrary: f l) simp_all

lemma samples_of_length: "length (samples_of segs f l ts) = length ts"
  by (induction ts arbitrary: f l) simp_all

lemma samples_of_seg_dist:
  "sorted ts \<Longrightarrow> f \<or> (\<forall>t \<in> set ts. l \<le> t) \<Longrightarrow>
   \<forall>s \<in> set (samples_of segs f l ts). 0 \<le> fst (snd (snd s))"
proof (induction ts arbitrary: f l)
  case Nil
  then show ?case by simp
next
  case (Cons t ts)
  have "\<forall>s \<in> set (samples_of segs False t ts). 0 \<le> fst (snd (snd s))"
    using Cons.prems(1) by (intro Cons.IH) auto
  then show ?case using Cons.prems(2) by auto
qed

lemma samples_of_pos:
  "samples_of segs f l ts = map (\<lambda>s. (snd (locate segs (snd (snd (snd s)))), fst (locate segs (snd (snd (snd s)))), fst (snd (snd s)), snd (snd (snd s)))) (samples_of segs f l ts)"
  by (induction ts arbitrary: f l) simp_all

lemma samples_of_cong:
  "(\<And>t. t \<in> set ts \<Longrightarrow> locate segs t = locate segs' t) \<Longrightarrow>
   samples_of segs f l ts = samples_of segs' f l ts"
  by (induction ts arbitrary: f l) simp_all

subsection \<open>Points, bearings and the bounding box\<close>

lemma build_pts_eq:
  "build_pts idx samples bs acc =
     (if \<forall>p \<in> set (pts_of idx samples bs). pt_ok p
      then Inr (acc @ pts_of idx samples bs) else Inl ValidationError)"
proof (induction idx samples bs acc rule: build_pts.induct)
  case (1 idx bearings pts)
  then show ?case by simp
next
  case (2 idx la lo sd cd rest bearings pts)
  show ?case
  proof (cases "0 \<le> cd \<and> 0 \<le> sd \<and> 0 \<le> bearings ! idx \<and> bearings ! idx < 360")
    case True
    then show ?thesis using 2 by (simp add: mk_NormalizedPoint_def pt_ok_def)
  next
    case False
    then show ?thesis by (auto simp: mk_NormalizedPoint_def pt_ok_def)
  qed
qed

lemma pts_of_length: "length (pts_of idx samples bs) = length samples"
  by (induction idx samples bs rule: pts_of.induct) simp_all

lemma pts_of_idx: "map pt_i (pts_of idx samples bs) = [idx ..< idx + length samples]"
proof (induction idx samples bs rule: pts_of.induct)
  case (1 idx bearings)
  then show ?case by simp
next
  case (2 idx la lo sd cd rest bearings)
  have "[idx ..< idx + length ((la, lo, sd, cd) # rest)] = idx # [Suc idx ..< Suc idx + length rest]"
    by (simp add: upt_conv_Cons del: upt_Suc)
  then show ?case using 2 by simp
qed

lemma pts_of_cum: "map cum_dist_m (pts_of idx samples bs) = map (\<lambda>s. snd (snd (snd s))) samples"
  by (induction idx samples bs rule: pts_of.induct) simp_all

lemma pts_of_seg: "map seg_dist_m (pts_of idx samples bs) = map (\<lambda>s. fst (snd (snd s))) samples"
  by (induction idx samples bs rule: pts_of.induct) simp_all

lemma pts_of_lonlat:
  "map (\<lambda>p. (pt_lon p, pt_lat p)) (pts_of idx samples bs) = map (\<lambda>s. (fst (snd s), fst s)) samples"
  by (induction idx samples bs rule: pts_of.induct) simp_all

lemma pts_of_bearing:
  "idx + length samples \<le> length bs \<Longrightarrow>
   map bearing (pts_of idx samples bs) = take (length samples) (drop idx bs)"
proof (induction idx samples bs rule: pts_of.induct)
  case (1 idx bearings)
  then show ?case by simp
next
  case (2 idx la lo sd cd rest bearings)
  then have "idx < length bearings" by simp
  then have "drop idx bearings = bearings ! idx # drop (Suc idx) bearings"
    by (simp add: Cons_nth_drop_Suc)
  then show ?case using 2 by simp
qed

lemma pair_bearings_length: "length (pair_bearings samples) = length samples - 1"
  by (induction samples rule: pair_bearings.induct) simp_all

lemma pair_bearings_range:
  "\<forall>b \<in> set (pair_bearings samples). 0 \<le> b \<and> b < 360"
  by (induction samples rule: pair_bearings.induct) (simp_all add: bearing_range)

lemma all_bearings_length: "samples \<noteq> [] \<Longrightarrow> length (all_bearings samples) = length samples"
  using pair_bearings_length[of samples]
  by (cases samples; cases "pair_bearings samples") (auto simp: all_bearings_def Let_def)

lemma all_bearings_range: "\<forall>b \<in> set (all_bearings samples). 0 \<le> b \<and> b < 360"
proof (cases "pair_bearings samples = []")
  case True
  then show ?thesis by (simp add: all_bearings_def)
next
  case False
  then have "last (pair_bearings samples) \<in> set (pair_bearings samples)" by simp
  then show ?thesis using False pair_bearings_range[of samples]
    by (auto simp: all_bearings_def Let_def)
qed

lemma bbox_nonempty: "xs \<noteq> [] \<Longrightarrow> \<exists>bb. bbox_wgs84 xs = Inr bb"
  by (cases xs) (simp_all add: bbox_wgs84_def)

lemma bbox_errors: "bbox_wgs84 xs = Inl e \<Longrightarrow> e = EmptySequence"
  by (cases xs) (simp_all add: bbox_wgs84_def)

lemma pts_of_ok:
  assumes "\<forall>s \<in> set samples. 0 \<le> fst (snd (snd s)) \<and> 0 \<le> snd (snd (snd s))" "samples \<noteq> []"
  shows "\<forall>p \<in> set (pts_of 0 samples (all_bearings samples)). pt_ok p"
proof
  fix p assume p: "p \<in> set (pts_of 0 samples (all_bearings samples))"
  let ?ps = "pts_of 0 samples (all_bearings samples)"
  have len: "length (all_bearings samples) = length samples" using assms(2) by (rule all_bearings_length)
  have "bearing p \<in> set (map bearing ?ps)" using p by simp
  also have "map bearing ?ps = all_bearings samples"
    using len by (simp add: pts_of_bearing)
  finally have b: "0 \<le> bearing p \<and> bearing p < 360" using all_bearings_range by blast
  have "cum_dist_m p \<in> set (map cum_dist_m ?ps)" using p by simp
  then have c: "0 \<le> cum_dist_m p" using assms(1) unfolding pts_of_cum by auto
  have "seg_dist_m p \<in> set (map seg_dist_m ?ps)" using p by simp
  then have d: "0 \<le> seg_dist_m p" using assms(1) unfolding pts_of_seg by auto
  from b c d show "pt_ok p" by (simp add: pt_ok_def)
qed

subsection \<open>The normalizer returns\<close>

lemma validate_tot:
  "validate_route_guardrails pts = Inr () \<Longrightarrow> 25 \<le> polyline_length_m pts"
  by (simp add: validate_iff MIN_ROUTE_M_def)

lemma resample_valid:
  assumes "0 < polyline_length_m pts" "0 < sp"
  shows "resample_even_spacing pts sp
           = Some (Inr (samples_of (build_segs pts) True 0 (targets_of sp (polyline_length_m pts))))"
proof -
  have nz: "sum_list (map seg_len (build_segs pts)) \<noteq> 0"
    using assms(1) by (simp add: polyline_length_segs)
  show ?thesis
    unfolding resample_targets[OF assms(2) nz] polyline_length_segs[symmetric]
    using sample_loop_init[OF targets_of_sorted[OF assms(2,1)]] by simp
qed

lemma assemble_ok:
  assumes "0 < sp" "0 < tot" "samples = samples_of segs True 0 (targets_of sp tot)"
  shows "\<exists>bb. assemble lib rid raw sp samples =
           Inr \<lparr>nr_route_version = ''1.0'', route_id = rid,
                normalized = \<lparr>spacing_m = sp, total_distance_m = tot,
                               point_count = length (targets_of sp tot), bbox = bb,
                               points = pts_of 0 samples (all_bearings samples)\<rparr>,
                source_raw_hash = Some (stable_json_sha256 lib (model_dump raw))\<rparr>"
proof -
  let ?ts = "targets_of sp tot"
  let ?ps = "pts_of 0 samples (all_bearings samples)"
  have len: "length samples = length ?ts" by (simp add: assms(3) samples_of_length)
  have len2: "2 \<le> length ?ts" using assms(2) by (rule targets_of_length)
  have ne: "samples \<noteq> []" using len len2 by auto
  have cum: "map (\<lambda>s. snd (snd (snd s))) samples = ?ts" by (simp add: assms(3) samples_of_cum)
  have cd: "\<forall>s \<in> set samples. 0 \<le> snd (snd (snd s))"
  proof
    fix s assume "s \<in> set samples"
    then have "snd (snd (snd s)) \<in> set (map (\<lambda>s. snd (snd (snd s))) samples)" by simp
    then show "0 \<le> snd (snd (snd s))" unfolding cum using targets_of_elems[OF assms(1,2)] by blast
  qed
  have sd: "\<forall>s \<in> set samples. 0 \<le> fst (snd (snd s))"
    unfolding assms(3) by (rule samples_of_seg_dist[OF targets_of_sorted[OF assms(1,2)]]) simp
  have ok: "\<forall>p \<in> set ?ps. pt_ok p" using cd sd ne by (intro pts_of_ok) auto
  have bp: "build_pts 0 samples (all_bearings samples) [] = Inr ?ps"
    using ok by (simp add: build_pts_eq)
  have pne: "?ps \<noteq> []" using ne pts_of_length[of 0 samples "all_bearings samples"] by auto
  then obtain bb where bb: "bbox_wgs84 (map (\<lambda>p. (pt_lon p, pt_lat p)) ?ps) = Inr bb"
    using bbox_nonempty[of "map (\<lambda>p. (pt_lon p, pt_lat p)) ?ps"] by auto
  have "cum_dist_m (last ?ps) = last (map cum_dist_m ?ps)" using pne by (simp add: last_map)
  also have "\<dots> = tot" unfolding pts_of_cum cum by (rule targets_of_last)
  finally have lc: "cum_dist_m (last ?ps) = tot" .
  have plen: "length ?ps = length ?ts" using len by (simp add: pts_of_length)
  have idx: "map pt_i ?ps = [0 ..< length ?ps]" by (simp add: pts_of_idx pts_of_length)
  have body: "mk_NormalizedRouteBody sp (cum_dist_m (last ?ps)) (length ?ps) bb ?ps
                = Inr \<lparr>spacing_m = sp, total_distance_m = tot, point_count = length ?ts,
                       bbox = bb, points = ?ps\<rparr>"
    unfolding mk_NormalizedRouteBody_def lc
    using assms(1,2) len2 plen idx by simp
  show ?thesis
    unfolding assemble_def bp using bb pne body by (intro exI[of _ bb]) simp
qed

lemma assemble_errors:
  "assemble lib rid raw sp samples = Inl e \<Longrightarrow>
   e = ValidationError \<or> e = EmptySequence \<or> e = IndexError"
  by (auto simp: assemble_def build_pts_eq mk_NormalizedRouteBody_def
           split: sum.splits if_splits dest: bbox_errors)

lemma normalize_ok:
  assumes "validate_route_guardrails (coordinates (geometry raw)) = Inr ()"
    and "0 < pick_spacing_m (polyline_length_m (coordinates (geometry raw))) req"
  shows "\<exists>bb. normalize_raw_route lib rid raw req =
           Some (Inr \<lparr>nr_route_version = ''1.0'', route_id = rid,
                normalized = \<lparr>spacing_m = pick_spacing_m (polyline_length_m (coordinates (geometry raw))) req,
                   total_distance_m = polyline_length_m (coordinates (geometry raw)),
                   point_count = length (targets_of (pick_spacing_m (polyline_length_m (coordinates (geometry raw))) req)
                                          (polyline_length_m (coordinates (geometry raw)))),
                   bbox = bb,
                   points = pts_of 0
                     (samples_of (build_segs (coordinates (geometry raw))) True 0
                        (targets_of (pick_spacing_m (polyline_length_m (coordinates (geometry raw))) req)
                                    (polyline_length_m (coordinates (geometry raw)))))
                     (all_bearings
                        (samples_of (build_segs (coordinates (geometry raw))) True 0
                           (targets_of (pick_spacing_m (polyline_length_m (coordinates (geometry raw))) req)
                                       (polyline_length_m (coordinates (geometry raw))))))\<rparr>,
                source_raw_hash = Some (stable_json_sha256 lib (model_dump raw))\<rparr>)"
proof -
  let ?pts = "coordinates (geometry raw)"
  let ?tot = "polyline_length_m ?pts"
  let ?sp = "pick_spacing_m ?tot req"
  have tp: "0 < ?tot" using validate_tot[OF assms(1)] by simp
  from assemble_ok[OF assms(2) tp refl, where segs = "build_segs ?pts" and lib = lib and rid = rid and raw = raw]
  obtain bb where "assemble lib rid raw ?sp (samples_of (build_segs ?pts) True 0 (targets_of ?sp ?tot))
      = Inr \<lparr>nr_route_version = ''1.0'', route_id = rid,
                normalized = \<lparr>spacing_m = ?sp, total_distance_m = ?tot,
                               point_count = length (targets_of ?sp ?tot), bbox = bb,
                               points = pts_of 0 (samples_of (build_segs ?pts) True 0 (targets_of ?sp ?tot))
                                  (all_bearings (samples_of (build_segs ?pts) True 0 (targets_of ?sp ?tot)))\<rparr>,
                source_raw_hash = Some (stable_json_sha256 lib (model_dump raw))\<rparr>"
    by blast
  then show ?thesis
    unfolding normalize_raw_route_def Let_def assms(1) resample_valid[OF tp assms(2)]
    by (intro exI[of _ bb]) simp
qed

lemma normalize_Some_pos:
  assumes "normalize_raw_route lib rid raw req = Some res"
    and "validate_route_guardrails (coordinates (geometry raw)) = Inr ()"
  shows "0 < pick_spacing_m (polyline_length_m (coordinates (geometry raw))) req"
proof -
  let ?pts = "coordinates (geometry raw)"
  have tp: "0 < sum_list (map seg_len (build_segs ?pts))"
    using validate_tot[OF assms(2)] by (simp add: polyline_length_segs)
  from assms obtain r where
    "resample_even_spacing ?pts (pick_spacing_m (polyline_length_m ?pts) req) = Some r"
    by (auto simp: normalize_raw_route_def Let_def split: option.splits)
  then show ?thesis using tp by (rule resample_Some_pos)
qed

lemma normalize_Inr_valid:
  "normalize_raw_route lib rid raw req = Some (Inr r) \<Longrightarrow>
   validate_route_guardrails (coordinates (geometry raw)) = Inr ()"
  by (auto simp: normalize_raw_route_def Let_def split: sum.splits)

subsection \<open>Locating a target on the polyline\<close>

lemma remdups_adj_idem: "remdups_adj (remdups_adj xs) = remdups_adj xs"
  using distinct_adj_remdups_adj[of xs] by (simp only: distinct_adj_altdef)

lemma adv_strict:
  assumes "\<forall>s \<in> set S. 0 \<le> seg_len s" "c < t" "t \<le> c + sum_list (map seg_len S)"
  shows "\<exists>s rest c'. adv S t c = (s # rest, c') \<and> c' < t \<and> t \<le> c' + seg_len s
           \<and> c' + sum_list (map seg_len (s # rest)) = c + sum_list (map seg_len S)"
  using assms
proof (induction S arbitrary: c)
  case Nil
  then show ?case by simp
next
  case (Cons s S)
  show ?case
  proof (cases "c + seg_len s < t")
    case True
    have "\<exists>s' rest c'. adv S t (c + seg_len s) = (s' # rest, c') \<and> c' < t \<and> t \<le> c' + seg_len s'
           \<and> c' + sum_list (map seg_len (s' # rest)) = (c + seg_len s) + sum_list (map seg_len S)"
      using Cons.prems True by (intro Cons.IH) (auto simp: add.assoc)
    then show ?thesis using True by (auto simp: add.assoc)
  next
    case False
    then show ?thesis using Cons.prems by auto
  qed
qed

lemma adv_filter:
  assumes "\<forall>s \<in> set S. P s \<or> seg_len s = 0" "c < t"
  shows "adv (filter P S) t c = (filter P (fst (adv S t c)), snd (adv S t c))"
  using assms
proof (induction S arbitrary: c)
  case Nil
  then show ?case by simp
next
  case (Cons s S)
  show ?case
  proof (cases "P s")
    case True
    then show ?thesis using Cons by auto
  next
    case False
    then have "seg_len s = 0" using Cons.prems(1) by simp
    then show ?thesis using False Cons by simp
  qed
qed

lemma segs_ok_nonneg: "segs_ok S \<Longrightarrow> \<forall>s \<in> set S. 0 \<le> seg_len s"
  by (auto simp: segs_ok_def)

lemma interp_at_Cons: "interp_at segs (s # rest) t c = interp_at segs' (s # rest') t c"
  by (simp add: interp_at_def)

lemma locate_filter_pos:
  assumes "segs_ok S" "0 < t" "t \<le> sum_list (map seg_len S)"
  shows "locate (filter (\<lambda>s. \<not> is_dup s) S) t = locate S t"
proof -
  from adv_strict[OF segs_ok_nonneg[OF assms(1)], of 0 t] assms(2,3)
  obtain s rest c' where a: "adv S t 0 = (s # rest, c')" and b: "c' < t" "t \<le> c' + seg_len s"
    by auto
  then have "0 < seg_len s" by linarith
  moreover have "s \<in> set S"
  proof -
    obtain k where "s # rest = drop k S" using adv_suffix[of S t 0] a by auto
    then have "s \<in> set (drop k S)" by (metis list.set_intros(1))
    then show ?thesis by (rule in_set_dropD)
  qed
  ultimately have nd: "\<not> is_dup s" using assms(1) by (auto simp: segs_ok_def)
  have "\<forall>s \<in> set S. \<not> is_dup s \<or> seg_len s = 0" using assms(1) by (auto simp: segs_ok_def)
  from adv_filter[OF this assms(2)] a nd
  have "adv (filter (\<lambda>s. \<not> is_dup s) S) t 0 = (s # filter (\<lambda>s. \<not> is_dup s) rest, c')" by simp
  then show ?thesis using a by (simp add: locate_def interp_at_def)
qed

lemma locate_zero:
  assumes "segs_ok (build_segs pts)" "2 \<le> length pts"
  shows "locate (build_segs pts) 0 = hd pts"
proof -
  from assms(2) obtain a b rest where p: "pts = a # b # rest"
    by (cases pts; cases "tl pts") auto
  let ?s = "(fst a, snd a, fst b, snd b, haversine_m (fst a) (snd a) (fst b) (snd b))"
  have s: "build_segs pts = ?s # build_segs (b # rest)" using p by simp
  have "0 \<le> seg_len ?s \<and> (is_dup ?s \<longleftrightarrow> seg_len ?s = 0)"
    using assms(1) unfolding s segs_ok_def by simp
  then have c: "0 < haversine_m (fst a) (snd a) (fst b) (snd b)
      \<or> (a = b \<and> haversine_m (fst a) (snd a) (fst b) (snd b) = 0)"
    by (auto simp: seg_len_def is_dup_def prod_eq_iff)
  then have "\<not> 0 + seg_len ?s < 0" by (auto simp: seg_len_def)
  then have "adv (?s # build_segs (b # rest)) 0 0 = (?s # build_segs (b # rest), 0)" by simp
  then have "locate (build_segs pts) 0 = interp_at (build_segs pts) (?s # build_segs (b # rest)) 0 0"
    by (simp add: locate_def s)
  also have "\<dots> = a"
  proof (cases "haversine_m (fst a) (snd a) (fst b) (snd b) = 0")
    case True
    with c have "a = b" by simp
    with True show ?thesis by (simp add: interp_at_def)
  next
    case False
    then show ?thesis by (simp add: interp_at_def)
  qed
  finally show ?thesis by (simp add: p)
qed




subsection \<open>Duplicates do not change the samples\<close>

lemma validate_segs_ok:
  assumes "validate_route_guardrails pts = Inr ()"
  shows "segs_ok (build_segs pts)"
  unfolding segs_ok_def
proof
  fix s assume s: "s \<in> set (build_segs pts)"
  show "0 \<le> seg_len s \<and> (is_dup s \<longleftrightarrow> seg_len s = 0)"
  proof (cases "is_dup s")
    case True
    then show ?thesis using is_dup_len[OF s] by simp
  next
    case False
    then have "s \<in> set (build_segs (remdups_adj pts))" using s by (simp add: build_segs_remdups)
    then have "0 < seg_len s" using assms by (simp add: validate_iff)
    then show ?thesis using False by simp
  qed
qed

lemma validate_remdups:
  assumes "validate_route_guardrails pts = Inr ()"
  shows "validate_route_guardrails (remdups_adj pts) = Inr ()"
  using assms by (simp add: validate_iff remdups_adj_idem polyline_length_remdups)

lemma validate_length:
  "validate_route_guardrails pts = Inr () \<Longrightarrow> 2 \<le> length pts \<and> 2 \<le> length (remdups_adj pts)"
proof -
  assume "validate_route_guardrails pts = Inr ()"
  then have "2 \<le> length (remdups_adj pts)" by (simp add: validate_iff)
  moreover have "length (remdups_adj pts) \<le> length pts" by (rule remdups_adj_length)
  ultimately show ?thesis by linarith
qed

lemma resample_nonpos:
  assumes "0 < polyline_length_m pts" "sp \<le> 0"
  shows "resample_even_spacing pts sp = None"
proof -
  let ?tot = "sum_list (map seg_len (build_segs pts))"
  have tp: "0 < ?tot" using assms(1) by (simp add: polyline_length_segs)
  have "target_loop sp ?tot sp [0] = None"
  proof (cases "target_loop sp ?tot sp [0]")
    case None
    then show ?thesis .
  next
    case (Some ts)
    moreover have "sp < ?tot" using assms(2) tp by linarith
    ultimately have "0 < sp" by (rule target_loop_Some_pos)
    with assms(2) show ?thesis by simp
  qed
  then show ?thesis using tp by (simp add: resample_even_spacing_def Let_def)
qed

lemma resample_dedup:
  assumes "validate_route_guardrails pts = Inr ()"
  shows "resample_even_spacing (remdups_adj pts) sp = resample_even_spacing pts sp"
proof -
  have tp: "0 < polyline_length_m pts" using validate_tot[OF assms] by simp
  then have tp': "0 < polyline_length_m (remdups_adj pts)" by (simp add: polyline_length_remdups)
  show ?thesis
  proof (cases "0 < sp")
    case False
    then show ?thesis using tp tp' by (simp add: resample_nonpos)
  next
    case True
    let ?tot = "polyline_length_m pts"
    have ok: "segs_ok (build_segs pts)" using assms by (rule validate_segs_ok)
    have ok': "segs_ok (build_segs (remdups_adj pts))"
      using validate_remdups[OF assms] by (rule validate_segs_ok)
    have len: "2 \<le> length pts" "2 \<le> length (remdups_adj pts)"
      using validate_length[OF assms] by simp_all
    have "locate (build_segs (remdups_adj pts)) t = locate (build_segs pts) t"
      if "t \<in> set (targets_of sp ?tot)" for t
    proof (cases "t = 0")
      case True
      then show ?thesis
        using locate_zero[OF ok len(1)] locate_zero[OF ok' len(2)] by simp
    next
      case False
      then have "0 < t" "t \<le> sum_list (map seg_len (build_segs pts))"
        using targets_of_elems[OF \<open>0 < sp\<close> tp that] by (simp_all add: polyline_length_segs)
      then show ?thesis unfolding build_segs_remdups by (rule locate_filter_pos[OF ok])
    qed
    then have "samples_of (build_segs (remdups_adj pts)) True 0 (targets_of sp ?tot)
                 = samples_of (build_segs pts) True 0 (targets_of sp ?tot)"
      by (rule samples_of_cong)
    then show ?thesis
      unfolding resample_valid[OF tp True] resample_valid[OF tp' True] polyline_length_remdups
      by simp
  qed
qed

lemma assemble_body_indep:
  "map_sum id normalized (assemble lib rid raw sp samples)
     = map_sum id normalized (assemble lib' rid' raw' sp samples)"
  by (simp add: assemble_def split: sum.splits)


lemma normalize_dedup:
  assumes "validate_route_guardrails (coordinates (geometry raw)) = Inr ()"
  shows "map_option (map_sum id normalized) (normalize_raw_route lib rid raw req)
           = map_option (map_sum id normalized)
               (normalize_raw_route lib rid
                  (with_coordinates raw (deduped_of (coordinates (geometry raw)))) req)"
proof -
  let ?pts = "coordinates (geometry raw)"
  let ?raw' = "with_coordinates raw (deduped_of ?pts)"
  have c: "coordinates (geometry ?raw') = remdups_adj ?pts"
    by (simp add: with_coordinates_def deduped_of_remdups)
  have v: "validate_route_guardrails (remdups_adj ?pts) = Inr ()"
    using assms by (rule validate_remdups)
  show ?thesis
    unfolding normalize_raw_route_def Let_def c assms v polyline_length_remdups
      resample_dedup[OF assms]
    using assemble_body_indep[of lib rid raw _ _ lib rid ?raw']
    by (simp split: option.splits sum.splits)
qed


subsection \<open>The concrete route, spacing selection, the zero-length branch\<close>

lemma build_segs_zip:
  "build_segs d = map (\<lambda>(a, b). (fst a, snd a, fst b, snd b, haversine_m (fst a) (snd a) (fst b) (snd b)))
                      (zip d (tl d))"
  by (induction d rule: build_segs.induct) simp_all

lemma example_haversine: "haversine_m 0 0 0 (1 / 100) = 6371000 * (1 / 100 * (pi / 180))"
  using haversine_meridian[of "1 / 100" 0 0] by simp

lemma example_haversine_bounds:
  "700 \<le> haversine_m 0 0 0 (1 / 100)" "haversine_m 0 0 0 (1 / 100) \<le> 1500"
  unfolding example_haversine using pi_ge_two pi_less_4 by simp_all

lemma example_haversine_valid:
  "0 < haversine_m 0 0 0 (1 / 100)" "25 \<le> haversine_m 0 0 0 (1 / 100)"
  "haversine_m 0 0 0 (1 / 100) \<le> 50000" "haversine_m 0 0 0 (1 / 100) \<le> 500000"
  using example_haversine_bounds by linarith+

lemma example_length: "polyline_length_m example_points = haversine_m 0 0 0 (1 / 100)"
  by (simp add: polyline_length_m_def example_points_def)

lemma example_deduped: "deduped_of example_points = example_points"
  by (simp add: deduped_of_def example_points_def)

lemma example_valid: "validate_route_guardrails example_points = Inr ()"
proof -
  have "remdups_adj example_points = example_points"
    using example_deduped by (simp add: deduped_of_remdups)
  then show ?thesis
    unfolding validate_iff example_length
    using example_haversine_valid
    by (simp add: example_points_def seg_len_def MAX_SEGMENT_M_def MIN_ROUTE_M_def MAX_ROUTE_M_def)
qed

lemma example_coords: "coordinates (geometry (example_raw pts)) = pts"
  by (simp add: example_raw_def)

lemma pick_spacing_pos:
  assumes "0 < tot" "0 < requested_or_default req"
  shows "0 < pick_spacing_m tot req"
  using assms by (simp add: pick_spacing_m_def Let_def MAX_POINTS_def)

lemma requested_or_default_None: "requested_or_default None = 250"
  by (simp add: requested_or_default_def DEFAULT_SPACING_M_def)

lemma requested_or_default_nonzero: "requested_or_default req \<noteq> 0"
  by (simp add: requested_or_default_def DEFAULT_SPACING_M_def split: option.splits)




lemma resample_not_zero_length:
  "sum_list (map seg_len (build_segs pts)) \<noteq> 0 \<Longrightarrow>
   resample_even_spacing pts sp \<noteq> Some (Inl ZeroLengthRoute)"
  by (simp add: resample_even_spacing_def Let_def split: option.splits)

lemma normalize_not_zero_length:
  assumes "validate_route_guardrails (coordinates (geometry raw)) = Inr ()"
  shows "normalize_raw_route lib rid raw req \<noteq> Some (Inl ZeroLengthRoute)"
proof
  let ?pts = "coordinates (geometry raw)"
  assume a: "normalize_raw_route lib rid raw req = Some (Inl ZeroLengthRoute)"
  have nz: "sum_list (map seg_len (build_segs ?pts)) \<noteq> 0"
    using validate_tot[OF assms] by (simp add: polyline_length_segs)
  from a assms obtain sp res where r: "resample_even_spacing ?pts sp = Some res"
    and c: "(case res of Inl e \<Rightarrow> Inl e | Inr samples \<Rightarrow> assemble lib rid raw sp samples) = Inl ZeroLengthRoute"
    by (auto simp: normalize_raw_route_def Let_def split: option.splits sum.splits)
  show False
  proof (cases res)
    case (Inl e)
    then show ?thesis using r c resample_not_zero_length[OF nz, of sp] by simp
  next
    case (Inr samples)
    then show ?thesis using c assemble_errors[of lib rid raw sp samples ZeroLengthRoute] by simp
  qed
qed

text \<open>
  With the default spacing a validated route is never widened: its total is at most
  500,000 m, so the estimate is at most 2002.
\<close>

lemma default_spacing_unchanged:
  assumes "validate_route_guardrails pts = Inr ()"
  shows "pick_spacing_m (polyline_length_m pts) None = 250"
proof -
  have b: "0 < polyline_length_m pts" "polyline_length_m pts \<le> 500000"
    using assms by (simp_all add: validate_iff MIN_ROUTE_M_def MAX_ROUTE_M_def)
  then have "polyline_length_m pts / 250 \<le> 2000" by simp
  then have "\<lfloor>polyline_length_m pts / 250\<rfloor> \<le> 2000" by (simp add: floor_le_iff)
  then show ?thesis using b
    by (simp add: pick_spacing_m_def requested_or_default_None Let_def py_floordiv_def MAX_POINTS_def)
qed

text \<open>The pipeline evaluated on the concrete route.\<close>

lemma example_total_bounds: "700 \<le> example_total" "example_total \<le> 1500"
  using example_haversine_bounds unfolding example_haversine example_total_def by simp_all

lemma example_bearing: "bearing_deg_true 0 0 0 (1 / 100) = 0"
proof -
  have "0 < radians (1 / 100)" "radians (1 / 100) < pi"
    using pi_gt_zero by (simp_all add: radians_def)
  then have "0 < sin (radians (1 / 100))" by (rule sin_gt_zero)
  then have "atan2 0 (sin (radians (1 / 100))) = 0" by (simp add: atan2_def)
  then show ?thesis
    by (simp add: bearing_deg_true_def Let_def radians_def degrees_def py_fmod_def)
qed

lemma example_resample:
  "resample_even_spacing example_points 2000
     = Some (Inr [(0, 0, 0, 0), (1 / 100, 0, example_total, example_total)])"
proof -
  have h: "haversine_m 0 0 0 (1 / 100) = example_total"
    by (simp add: example_haversine example_total_def)
  have b: "0 < example_total" "\<not> 2000 < example_total" "example_total \<noteq> 0" "0 \<noteq> example_total"
    using example_total_bounds by linarith+
  have segs: "build_segs example_points = [(0, 0, 0, 1 / 100, example_total)]"
    by (simp add: example_points_def h)
  have tl: "target_loop 2000 example_total 2000 [0] = Some [0]"
    using b(2) by (subst target_loop.simps) simp
  have a0: "advance_cursor [(0, 0, 0, 1 / 100, example_total)] 0 0 0 = (0, 0)"
    using b(1) by (subst advance_cursor.simps) (simp add: seg_len_def)
  have a1: "advance_cursor [(0, 0, 0, 1 / 100, example_total)] example_total 0 0 = (0, 0)"
    by (subst advance_cursor.simps) (simp add: seg_len_def)
  show ?thesis
    unfolding resample_even_spacing_def segs Let_def
    using b tl a0 a1 by (simp add: seg_len_def interpolate_def)
qed

lemma example_normalize:
  "normalize_raw_route example_lib ''r1'' (example_raw example_points) (Some 2000)
     = Some (Inr example_route)"
proof -
  have l: "polyline_length_m example_points = example_total"
    by (simp add: example_length example_haversine example_total_def)
  have b: "0 < example_total" "example_total / 2000 < 1" "0 \<le> example_total / 2000"
    using example_total_bounds by simp_all
  then have "\<lfloor>example_total / 2000\<rfloor> = 0" by linarith
  then have sp: "pick_spacing_m example_total (Some 2000) = 2000"
    using b(1) example_total_bounds(2)
    by (simp add: pick_spacing_m_def requested_or_default_def py_floordiv_def
          MAX_POINTS_def Let_def)
  have tp: "0 \<le> example_total" using b(1) by simp
  have asm: "assemble example_lib ''r1'' (example_raw example_points) 2000
               [(0, 0, 0, 0), (1 / 100, 0, example_total, example_total)] = Inr example_route"
    using tp
    by (simp add: assemble_def all_bearings_def example_bearing mk_NormalizedPoint_def
          bbox_wgs84_def mk_NormalizedRouteBody_def example_route_def)
  show ?thesis
    unfolding normalize_raw_route_def Let_def example_coords example_valid l sp example_resample
    using asm by simp
qed

subsection \<open>What a returned route is\<close>

lemma normalize_char:
  assumes "normalize_raw_route lib rid raw req = Some (Inr r)"
  shows "validate_route_guardrails (coordinates (geometry raw)) = Inr ()
       \<and> 0 < pick_spacing_m (polyline_length_m (coordinates (geometry raw))) req
       \<and> spacing_m (normalized r) = pick_spacing_m (polyline_length_m (coordinates (geometry raw))) req
       \<and> total_distance_m (normalized r) = polyline_length_m (coordinates (geometry raw))
       \<and> point_count (normalized r) = length (targets_of (spacing_m (normalized r)) (total_distance_m (normalized r)))
       \<and> points (normalized r)
           = pts_of 0 (samples_of (build_segs (coordinates (geometry raw))) True 0
                         (targets_of (spacing_m (normalized r)) (total_distance_m (normalized r))))
               (all_bearings (samples_of (build_segs (coordinates (geometry raw))) True 0
                         (targets_of (spacing_m (normalized r)) (total_distance_m (normalized r)))))"
proof -
  have v: "validate_route_guardrails (coordinates (geometry raw)) = Inr ()"
    using assms by (rule normalize_Inr_valid)
  have p: "0 < pick_spacing_m (polyline_length_m (coordinates (geometry raw))) req"
    using assms v by (rule normalize_Some_pos)
  from normalize_ok[OF v p, of lib rid] assms show ?thesis using v p by auto
qed

lemma normalize_exists:
  assumes "validate_route_guardrails (coordinates (geometry raw)) = Inr ()"
    and "0 < requested_or_default req"
  shows "\<exists>r. normalize_raw_route lib rid raw req = Some (Inr r)"
proof -
  have "0 < pick_spacing_m (polyline_length_m (coordinates (geometry raw))) req"
    using validate_tot[OF assms(1)] assms(2) by (intro pick_spacing_pos) simp_all
  from normalize_ok[OF assms(1) this, of lib rid] show ?thesis by blast
qed

lemma points_cum:
  assumes "normalize_raw_route lib rid raw req = Some (Inr r)"
  shows "map cum_dist_m (points (normalized r))
           = targets_of (spacing_m (normalized r)) (total_distance_m (normalized r))"
  using normalize_char[OF assms] by (simp add: pts_of_cum samples_of_cum)

subsection \<open>A route with a duplicated point\<close>

lemma example_dup_valid:
  "validate_route_guardrails [(0, 0), (0, 1 / 100), (0, 1 / 100)] = Inr ()"
proof -
  have r: "remdups_adj [(0, 0), (0, 1 / 100), (0, 1 / 100 :: real)] = [(0 :: real, 0 :: real), (0, 1 / 100)]"
    by simp
  have l: "polyline_length_m [(0, 0), (0, 1 / 100), (0, 1 / 100)] = haversine_m 0 0 0 (1 / 100)"
    by (simp add: polyline_length_m_def haversine_same)
  show ?thesis
    unfolding validate_iff r l
    using example_haversine_valid
    by (simp add: seg_len_def MAX_SEGMENT_M_def MIN_ROUTE_M_def MAX_ROUTE_M_def)
qed

subsection \<open>Hashing\<close>

lemma sort_key_fst_unique:
  assumes "distinct (map fst kvs)" "distinct (map fst kvs')" "fst ` set kvs = fst ` set kvs'"
  shows "map fst (sort_key fst kvs) = map fst (sort_key fst kvs')"
proof (rule sorted_distinct_set_unique)
  show "sorted (map fst (sort_key fst kvs))" "sorted (map fst (sort_key fst kvs'))"
    by (rule sorted_sort_key)+
  show "distinct (map fst (sort_key fst kvs))" using assms(1) by (simp add: distinct_map)
  show "distinct (map fst (sort_key fst kvs'))" using assms(2) by (simp add: distinct_map)
  show "set (map fst (sort_key fst kvs)) = set (map fst (sort_key fst kvs'))"
    using assms(3) by simp
qed

lemma same_json_dumps:
  "same_json j1 j2 \<Longrightarrow> json_dumps lib j1 = json_dumps lib j2"
proof (induction rule: same_json.induct)
  case (same_atom j)
  then show ?case by simp
next
  case (same_arr xs ys)
  then have "list_all2 (\<lambda>x y. json_dumps lib x = json_dumps lib y) xs ys"
    by (rule list_all2_mono) simp
  then have "map (json_dumps lib) xs = map (json_dumps lib) ys"
    by (induction rule: list_all2_induct) simp_all
  then show ?case by simp
next
  case (same_obj kvs kvs')
  let ?L = "sort_key fst kvs" and ?L' = "sort_key fst kvs'"
  let ?h = "\<lambda>kv. str_repr lib (fst kv) @ '':'' @ json_dumps lib (snd kv)"
  have keys: "map fst ?L = map fst ?L'"
    using same_obj(1,2,3) by (rule sort_key_fst_unique)
  then have len: "length ?L = length ?L'" by (metis length_map)
  have "map ?h ?L = map ?h ?L'"
  proof (rule nth_equalityI)
    show "length (map ?h ?L) = length (map ?h ?L')" using len by simp
  next
    fix n assume "n < length (map ?h ?L)"
    then have n: "n < length ?L" "n < length ?L'" using len by simp_all
    have k: "fst (?L ! n) = fst (?L' ! n)"
      using keys n by (metis nth_map)
    have "?L ! n \<in> set kvs" using n(1) by (metis nth_mem set_sort)
    then have m1: "(fst (?L ! n), snd (?L ! n)) \<in> set kvs" by simp
    have "?L' ! n \<in> set kvs'" using n(2) by (metis nth_mem set_sort)
    then have m2: "(fst (?L ! n), snd (?L' ! n)) \<in> set kvs'" unfolding k by simp
    from same_obj(4) m1 m2 have "json_dumps lib (snd (?L ! n)) = json_dumps lib (snd (?L' ! n))"
      by blast
    then show "map ?h ?L ! n = map ?h ?L' ! n" using n k by simp
  qed
  then show ?case by simp
qed

lemma normalize_hash:
  assumes "normalize_raw_route lib rid raw req = Some (Inr r)"
  shows "source_raw_hash r = Some (stable_json_sha256 lib (model_dump raw))"
proof -
  have v: "validate_route_guardrails (coordinates (geometry raw)) = Inr ()"
    using assms by (rule normalize_Inr_valid)
  have p: "0 < pick_spacing_m (polyline_length_m (coordinates (geometry raw))) req"
    using assms v by (rule normalize_Some_pos)
  from normalize_ok[OF v p, of lib rid] assms show ?thesis by auto
qed

lemma example_client_same:
  "same_json (model_dump (example_raw_client [(''b'', JInt 1), (''a'', JStr ''x'')]))
             (model_dump (example_raw_client [(''a'', JStr ''x''), (''b'', JInt 1)]))"
proof -
  have c: "same_json (JObj [(''b'', JInt 1), (''a'', JStr ''x'')])
                     (JObj [(''a'', JStr ''x''), (''b'', JInt 1)])"
    by (rule same_obj) (auto intro: same_atom)
  have p: "same_json
      (JObj [(''name'', JNull), (''source'', JStr ''mobile''), (''created_at_utc'', JNull),
             (''notes'', JNull), (''client'', JObj [(''b'', JInt 1), (''a'', JStr ''x'')])])
      (JObj [(''name'', JNull), (''source'', JStr ''mobile''), (''created_at_utc'', JNull),
             (''notes'', JNull), (''client'', JObj [(''a'', JStr ''x''), (''b'', JInt 1)])])"
    by (rule same_obj) (use c in \<open>auto intro: same_atom\<close>)
  show ?thesis
    unfolding model_dump_def example_raw_client_def example_raw_def
    by (simp add: opt_str_def, rule same_obj) (use p in \<open>auto intro: same_atom\<close>)
qed

subsection \<open>Great-circle distance zero\<close>







lemma validate_coords_in_range:
  assumes "validate_coords coords = Inr coords'"
  shows "coords' = coords \<and> 2 \<le> length coords
       \<and> (\<forall>p \<in> set coords. - 180 \<le> fst p \<and> fst p \<le> 180 \<and> - 90 \<le> snd p \<and> snd p \<le> 90)"
  using assms by (auto simp: validate_coords_def split: if_splits)

text \<open>
  Two different pairs at the north pole pass the boundary check and survive
  de-duplication; the guardrails then reject them as adjacent duplicates.
\<close>

lemma pole_route_rejected:
  "validate_coords [(0, 90), (10, 90)] = Inr [(0, 90), (10, 90)]
   \<and> validate_route_guardrails [(0, 90), (10, 90)] = Inl DuplicatePointAdjacent"
proof -
  have "haversine_m 0 90 10 90 = 0" by (simp add: haversine_m_def radians_def)
  then show ?thesis
    by (simp add: validate_coords_def validate_route_guardrails_def Let_def)
qed

section \<open>The claims\<close>



text \<open>
  Claim C2. For every raw coordinate sequence that passes validation, \<^verbatim>\<open>normalize_raw_route\<close>
  produces the same normalized body (points with their coordinates, cumulative and segment
  distances and bearings, and with them the count, the total, the spacing and the bounding
  box), the same error or the same non-return as it does for the sequence with each run of
  consecutive identical points collapsed to one representative.
\<close>

theorem dedup_equivalence:
  assumes "validate_route_guardrails (coordinates (geometry raw)) = Inr ()"
  shows "map_option (map_sum id normalized) (normalize_raw_route lib rid raw req)
           = map_option (map_sum id normalized)
               (normalize_raw_route lib rid
                  (with_coordinates raw (deduped_of (coordinates (geometry raw)))) req)"
  using assms by (rule normalize_dedup)

theorem dedup_equivalence_witness:
  "validate_route_guardrails
     (coordinates (geometry (example_raw [(0, 0), (0, 1 / 100), (0, 1 / 100)]))) = Inr ()
   \<and> deduped_of [(0, 0), (0, 1 / 100), (0, 1 / 100)] = [(0, 0), (0, 1 / 100)]
   \<and> map_option (map_sum id normalized)
        (normalize_raw_route example_lib ''r1'' (example_raw [(0, 0), (0, 1 / 100), (0, 1 / 100)]) None)
       = map_option (map_sum id normalized)
           (normalize_raw_route example_lib ''r1'' (example_raw [(0, 0), (0, 1 / 100)]) None)"
proof -
  have v: "validate_route_guardrails
     (coordinates (geometry (example_raw [(0, 0), (0, 1 / 100), (0, 1 / 100)]))) = Inr ()"
    by (simp add: example_coords example_dup_valid)
  have d: "deduped_of [(0, 0), (0, 1 / 100), (0, 1 / 100 :: real)] = [(0 :: real, 0 :: real), (0, 1 / 100)]"
    by (simp add: deduped_of_def)
  have w: "with_coordinates (example_raw [(0, 0), (0, 1 / 100), (0, 1 / 100)]) [(0, 0), (0, 1 / 100)]
             = example_raw [(0, 0), (0, 1 / 100)]"
    by (simp add: with_coordinates_def example_raw_def)
  from dedup_equivalence[OF v, of example_lib "''r1''" None] v d w
  show ?thesis by (simp add: example_coords)
qed



text \<open>
  Claim C4. For every route that \<^verbatim>\<open>normalize_raw_route\<close> returns, \<^verbatim>\<open>cum_dist_m\<close> is 0 at
  index 0, is non-decreasing along the points, and at the last point equals
  \<^verbatim>\<open>total_distance_m\<close>.
\<close>

theorem cum_dist_monotone:
  assumes "normalize_raw_route lib rid raw req = Some (Inr r)"
  shows "cum_dist_m (points (normalized r) ! 0) = 0
       \<and> sorted (map cum_dist_m (points (normalized r)))
       \<and> cum_dist_m (last (points (normalized r))) = total_distance_m (normalized r)"
proof -
  let ?ps = "points (normalized r)"
  let ?ts = "targets_of (spacing_m (normalized r)) (total_distance_m (normalized r))"
  note c = normalize_char[OF assms]
  have m: "map cum_dist_m ?ps = ?ts" using assms by (rule points_cum)
  have tp: "0 < total_distance_m (normalized r)" using c validate_tot[of "coordinates (geometry raw)"] by simp
  have sp: "0 < spacing_m (normalized r)" using c by simp
  have len: "2 \<le> length ?ts" using tp by (rule targets_of_length)
  then have ne: "?ps \<noteq> []" using m by (metis length_0_conv list.map_disc_iff not_numeral_le_zero)
  have "cum_dist_m (?ps ! 0) = (map cum_dist_m ?ps) ! 0" using ne by simp
  also have "\<dots> = 0" unfolding m using targets_of_Cons[of "spacing_m (normalized r)" "total_distance_m (normalized r)"] by auto
  finally have a: "cum_dist_m (?ps ! 0) = 0" .
  have b: "sorted (map cum_dist_m ?ps)" unfolding m using sp tp by (rule targets_of_sorted)
  have "cum_dist_m (last ?ps) = last (map cum_dist_m ?ps)" using ne by (simp add: last_map)
  then have d: "cum_dist_m (last ?ps) = total_distance_m (normalized r)"
    unfolding m by (simp add: targets_of_last)
  from a b d show ?thesis by simp
qed

theorem cum_dist_monotone_witness:
  "normalize_raw_route example_lib ''r1'' (example_raw example_points) (Some 2000)
     = Some (Inr example_route)
   \<and> cum_dist_m (points (normalized example_route) ! 0) = 0
   \<and> sorted (map cum_dist_m (points (normalized example_route)))
   \<and> map cum_dist_m (points (normalized example_route)) = [0, example_total]
   \<and> cum_dist_m (last (points (normalized example_route)))
       = total_distance_m (normalized example_route)"
proof -
  have "map cum_dist_m (points (normalized example_route)) = [0, example_total]"
    by (simp add: example_route_def)
  with cum_dist_monotone[OF example_normalize] example_normalize show ?thesis by simp
qed

text \<open>
  Claim C5. When the de-duplicated sequence has at least 2 points and every adjacent
  segment of it has positive length of at most 50,000 m, guardrail validation fails with
  RouteTooShort if and only if the total polyline length is below 25 m, fails with
  RouteTooLong if and only if the total is above 500,000 m, and succeeds otherwise.
\<close>

theorem guardrail_total_length:
  assumes "2 \<le> length (deduped_of pts)"
    and "\<forall>(a, b) \<in> set (zip (deduped_of pts) (tl (deduped_of pts))).
            0 < haversine_m (fst a) (snd a) (fst b) (snd b)
          \<and> haversine_m (fst a) (snd a) (fst b) (snd b) \<le> 50000"
  shows "(validate_route_guardrails pts = Inl RouteTooShort
            \<longleftrightarrow> polyline_length_m (deduped_of pts) < 25)
       \<and> (validate_route_guardrails pts = Inl RouteTooLong
            \<longleftrightarrow> 500000 < polyline_length_m (deduped_of pts))
       \<and> (validate_route_guardrails pts = Inr ()
            \<longleftrightarrow> 25 \<le> polyline_length_m (deduped_of pts)
                \<and> polyline_length_m (deduped_of pts) \<le> 500000)"
proof -
  from assms(1) obtain p0 ps where p: "pts = p0 # ps"
    by (cases pts) (auto simp: deduped_of_def)
  then have d: "dedupe_loop [p0] ps = deduped_of pts" by (simp add: deduped_of_def)
  have "\<forall>s \<in> set (build_segs (deduped_of pts)). 0 < seg_len s \<and> seg_len s \<le> MAX_SEGMENT_M"
    using assms(2) unfolding build_segs_zip by (auto simp: seg_len_def MAX_SEGMENT_M_def)
  then have s: "segment_sanity (deduped_of pts) = Inr ()" by (simp add: segment_sanity_iff)
  show ?thesis
    unfolding validate_route_guardrails_def p list.case Let_def d[unfolded p]
    using assms(1) s unfolding p
    by (simp add: MIN_ROUTE_M_def MAX_ROUTE_M_def)
qed

theorem guardrail_total_length_witness:
  "2 \<le> length (deduped_of example_points)
   \<and> deduped_of example_points = [(0, 0), (0, 1 / 100)]
   \<and> 0 < haversine_m 0 0 0 (1 / 100) \<and> haversine_m 0 0 0 (1 / 100) \<le> 50000
   \<and> 25 \<le> polyline_length_m (deduped_of example_points)
   \<and> polyline_length_m (deduped_of example_points) \<le> 500000
   \<and> validate_route_guardrails example_points = Inr ()
   \<and> validate_route_guardrails example_points \<noteq> Inl RouteTooShort
   \<and> validate_route_guardrails example_points \<noteq> Inl RouteTooLong"
proof -
  have d: "deduped_of example_points = [(0, 0), (0, 1 / 100)]"
    by (simp add: deduped_of_def example_points_def)
  have l: "polyline_length_m (deduped_of example_points) = haversine_m 0 0 0 (1 / 100)"
    by (simp add: example_deduped example_length)
  have h1: "2 \<le> length (deduped_of example_points)" by (simp add: d)
  have h2: "\<forall>(a, b) \<in> set (zip (deduped_of example_points) (tl (deduped_of example_points))).
            0 < haversine_m (fst a) (snd a) (fst b) (snd b)
          \<and> haversine_m (fst a) (snd a) (fst b) (snd b) \<le> 50000"
    using example_haversine_valid by (simp add: d)
  from guardrail_total_length[OF h1 h2] l example_haversine_valid d h1
  show ?thesis by simp
qed

text \<open>
  Claim C6. For every input on which guardrail validation succeeds, the ZeroLengthRoute
  branch of the resampler is not taken, whatever the spacing, and \<^verbatim>\<open>normalize_raw_route\<close>
  does not raise ZeroLengthRoute.
\<close>

theorem zero_length_unreachable:
  assumes "validate_route_guardrails (coordinates (geometry raw)) = Inr ()"
  shows "resample_even_spacing (coordinates (geometry raw)) spacing \<noteq> Some (Inl ZeroLengthRoute)
       \<and> normalize_raw_route lib rid raw req \<noteq> Some (Inl ZeroLengthRoute)"
proof -
  have "sum_list (map seg_len (build_segs (coordinates (geometry raw)))) \<noteq> 0"
    using validate_tot[OF assms] by (simp add: polyline_length_segs)
  then show ?thesis
    using resample_not_zero_length normalize_not_zero_length[OF assms] by blast
qed

theorem zero_length_unreachable_witness:
  "validate_route_guardrails (coordinates (geometry (example_raw example_points))) = Inr ()
   \<and> resample_even_spacing (coordinates (geometry (example_raw example_points))) 250
        \<noteq> Some (Inl ZeroLengthRoute)
   \<and> normalize_raw_route example_lib ''r1'' (example_raw example_points) None
        \<noteq> Some (Inl ZeroLengthRoute)"
proof -
  have v: "validate_route_guardrails (coordinates (geometry (example_raw example_points))) = Inr ()"
    by (simp add: example_coords example_valid)
  from zero_length_unreachable[OF v, of 250 example_lib "''r1''" None] v show ?thesis by simp
qed

text \<open>
  Claim C7. Every bearing lies in the half-open interval from 0 to 360: the value of
  \<^verbatim>\<open>bearing_deg_true\<close> for any two coordinate pairs, and the bearing of every point of
  every route that \<^verbatim>\<open>normalize_raw_route\<close> returns, the last point included.
\<close>

theorem bearing_in_range:
  "(0 \<le> bearing_deg_true a_lon a_lat b_lon b_lat \<and> bearing_deg_true a_lon a_lat b_lon b_lat < 360)
   \<and> (normalize_raw_route lib rid raw req = Some (Inr r) \<longrightarrow>
        (\<forall>p \<in> set (points (normalized r)). 0 \<le> bearing p \<and> bearing p < 360))"
proof (intro conjI impI)
  show "0 \<le> bearing_deg_true a_lon a_lat b_lon b_lat"
    and "bearing_deg_true a_lon a_lat b_lon b_lat < 360"
    using bearing_range by simp_all
next
  assume a: "normalize_raw_route lib rid raw req = Some (Inr r)"
  let ?samples = "samples_of (build_segs (coordinates (geometry raw))) True 0
                    (targets_of (spacing_m (normalized r)) (total_distance_m (normalized r)))"
  note c = normalize_char[OF a]
  have tp: "0 < total_distance_m (normalized r)"
    using c validate_tot[of "coordinates (geometry raw)"] by simp
  have "length ?samples = length (targets_of (spacing_m (normalized r)) (total_distance_m (normalized r)))"
    by (simp add: samples_of_length)
  then have ne: "?samples \<noteq> []" using targets_of_length[OF tp, of "spacing_m (normalized r)"] by auto
  have "map bearing (points (normalized r)) = all_bearings ?samples"
    using c all_bearings_length[OF ne] by (simp add: pts_of_bearing)
  then have "bearing ` set (points (normalized r)) = set (all_bearings ?samples)"
    by (metis set_map)
  then show "\<forall>p \<in> set (points (normalized r)). 0 \<le> bearing p \<and> bearing p < 360"
    using all_bearings_range[of ?samples] by blast
qed

theorem bearing_in_range_witness:
  "normalize_raw_route example_lib ''r1'' (example_raw example_points) (Some 2000)
     = Some (Inr example_route)
   \<and> 0 \<le> bearing_deg_true 0 0 0 (1 / 100) \<and> bearing_deg_true 0 0 0 (1 / 100) < 360
   \<and> list_all (\<lambda>p. 0 \<le> bearing p \<and> bearing p < 360) (points (normalized example_route))"
  using bearing_in_range[of 0 0 0 "1 / 100" example_lib "''r1''" "example_raw example_points"
          "Some 2000" example_route] example_normalize
  by (simp add: list_all_iff)

text \<open>
  Claim C8. The hash does not depend on the order of object fields: two JSON values that
  are the same logical value have the same \<^verbatim>\<open>stable_json_sha256\<close>, and two raw inputs
  whose dumps are the same logical value give routes with the same \<^verbatim>\<open>source_raw_hash\<close>.
\<close>

theorem hash_field_order:
  "(same_json j1 j2 \<longrightarrow> stable_json_sha256 lib j1 = stable_json_sha256 lib j2)
   \<and> (same_json (model_dump raw1) (model_dump raw2) \<longrightarrow>
        normalize_raw_route lib rid1 raw1 req1 = Some (Inr r1) \<longrightarrow>
        normalize_raw_route lib rid2 raw2 req2 = Some (Inr r2) \<longrightarrow>
        source_raw_hash r1 = source_raw_hash r2)"
proof (intro conjI impI)
  assume "same_json j1 j2"
  then have "json_dumps lib j1 = json_dumps lib j2" by (rule same_json_dumps)
  then show "stable_json_sha256 lib j1 = stable_json_sha256 lib j2"
    by (simp add: stable_json_sha256_def)
next
  assume "same_json (model_dump raw1) (model_dump raw2)"
    and n1: "normalize_raw_route lib rid1 raw1 req1 = Some (Inr r1)"
    and n2: "normalize_raw_route lib rid2 raw2 req2 = Some (Inr r2)"
  then have "json_dumps lib (model_dump raw1) = json_dumps lib (model_dump raw2)"
    by (intro same_json_dumps)
  then show "source_raw_hash r1 = source_raw_hash r2"
    unfolding normalize_hash[OF n1] normalize_hash[OF n2] by (simp add: stable_json_sha256_def)
qed

theorem hash_field_order_witness:
  "same_json (model_dump (example_raw_client [(''b'', JInt 1), (''a'', JStr ''x'')]))
             (model_dump (example_raw_client [(''a'', JStr ''x''), (''b'', JInt 1)]))
   \<and> model_dump (example_raw_client [(''b'', JInt 1), (''a'', JStr ''x'')])
       \<noteq> model_dump (example_raw_client [(''a'', JStr ''x''), (''b'', JInt 1)])
   \<and> stable_json_sha256 example_lib (model_dump (example_raw_client [(''b'', JInt 1), (''a'', JStr ''x'')]))
       = stable_json_sha256 example_lib (model_dump (example_raw_client [(''a'', JStr ''x''), (''b'', JInt 1)]))
   \<and> (\<exists>r1 r2.
         normalize_raw_route example_lib ''r1''
           (example_raw_client [(''b'', JInt 1), (''a'', JStr ''x'')]) None = Some (Inr r1)
       \<and> normalize_raw_route example_lib ''r2''
           (example_raw_client [(''a'', JStr ''x''), (''b'', JInt 1)]) None = Some (Inr r2)
       \<and> source_raw_hash r1 = source_raw_hash r2)"
proof -
  let ?A = "example_raw_client [(''b'', JInt 1), (''a'', JStr ''x'')]"
  let ?B = "example_raw_client [(''a'', JStr ''x''), (''b'', JInt 1)]"
  have cA: "coordinates (geometry ?A) = example_points" and cB: "coordinates (geometry ?B) = example_points"
    by (simp_all add: example_raw_client_def example_raw_def)
  obtain r1 where r1: "normalize_raw_route example_lib ''r1'' ?A None = Some (Inr r1)"
    using normalize_exists[of ?A None example_lib "''r1''"]
    by (auto simp: cA example_valid requested_or_default_None)
  obtain r2 where r2: "normalize_raw_route example_lib ''r2'' ?B None = Some (Inr r2)"
    using normalize_exists[of ?B None example_lib "''r2''"]
    by (auto simp: cB example_valid requested_or_default_None)
  have ne: "model_dump ?A \<noteq> model_dump ?B"
    by (simp add: model_dump_def example_raw_client_def example_raw_def)
  from hash_field_order[of "model_dump ?A" "model_dump ?B" example_lib ?A ?B "''r1''" None r1 "''r2''" None r2]
    example_client_same r1 r2 ne
  show ?thesis by blast
qed






end
